(* ===== verification/Prelude.thy ===== *)
theory Prelude
  imports Main "HOL-Library.Word"
begin

text \<open>
  What every component of the model shares: the machine integers of the Rust code and the
  checked conversions between them, Rust's \<open>Result\<close>, decimal rendering of integers for error
  messages, and the list facts on sorting, filtering and truncation that the queries rest on.

  \<open>i64\<close> values are 64-bit words read with \<^const>\<open>sint\<close>, unsigned ones are words read with
  \<^const>\<open>uint\<close>; \<open>usize\<close> values are lengths of lists and stay natural numbers.
\<close>

section \<open>Machine integers and their conversions\<close>

type_synonym u8 = "8 word"
type_synonym u16 = "16 word"
type_synonym u32 = "32 word"
type_synonym u64 = "64 word"
type_synonym i64 = "64 word"
type_synonym bytes = "u8 list"

named_theorems conv_simps
named_theorems row_simps

text \<open>\<open>i64::from(x)\<close> for an \<open>x: u32\<close>: never fails, zero-extends.\<close>

definition i64_of_u32 :: "u32 \<Rightarrow> i64" where
  "i64_of_u32 x = ucast x"

text \<open>\<open>u32::try_from(n)\<close> for an \<open>n: i64\<close>.\<close>

definition u32_try_i64 :: "i64 \<Rightarrow> u32 option" where
  "u32_try_i64 n = (if 0 \<le> sint n \<and> sint n < 2 ^ 32 then Some (word_of_int (sint n)) else None)"

text \<open>\<open>u64::try_from(n)\<close> for an \<open>n: i64\<close>.\<close>

definition u64_try_i64 :: "i64 \<Rightarrow> u64 option" where
  "u64_try_i64 n = (if 0 \<le> sint n then Some (word_of_int (sint n)) else None)"

text \<open>\<open>i64::try_from(x)\<close> for an \<open>x: u64\<close>.\<close>

definition i64_try_u64 :: "u64 \<Rightarrow> i64 option" where
  "i64_try_u64 x = (if uint x < 2 ^ 63 then Some (word_of_int (uint x)) else None)"

text \<open>\<open>i64::try_from(n)\<close> for an \<open>n: usize\<close> (a length or a count).\<close>

definition i64_try_usize :: "nat \<Rightarrow> i64 option" where
  "i64_try_usize n = (if n < 2 ^ 63 then Some (of_nat n) else None)"

lemma sint_i64_bounds: "- (2 ^ 63) \<le> sint (x :: i64)" "sint (x :: i64) < 2 ^ 63"
  using sint_ge [of x] sint_lt [of x] by simp_all

lemma sint_word_of_int_i64:
  assumes "- (2 ^ 63) \<le> k" and "k < 2 ^ 63"
  shows "sint (word_of_int k :: i64) = k"
  using assms by (simp add: sint_sbintrunc' signed_take_bit_int_eq_self)

lemma sint_inject_i64: "sint (x :: i64) = sint y \<longleftrightarrow> x = y"
  by (auto intro: signed_word_eqI)

lemma sint_i64_of_u32 [conv_simps]: "sint (i64_of_u32 x) = uint x"
proof -
  have b: "0 \<le> uint x" "uint x < 2 ^ 32"
    using uint_lt2p [of x] by simp_all
  have "i64_of_u32 x = word_of_int (uint x)"
    by (simp add: i64_of_u32_def)
  then show ?thesis
    using b sint_word_of_int_i64 [of "uint x"] order_trans [of "- (2 ^ 63)" 0 "uint x"]
    by (simp del: of_int_uint)
qed

lemma i64_of_u32_inject [simp]: "i64_of_u32 x = i64_of_u32 y \<longleftrightarrow> x = y"
  by (metis sint_i64_of_u32 word_uint_eq_iff)

lemma u32_try_i64_of_u32 [simp]: "u32_try_i64 (i64_of_u32 x) = Some x"
proof -
  have "uint x < 2 ^ 32"
    using uint_lt2p [of x] by simp
  then show ?thesis
    by (simp add: u32_try_i64_def conv_simps)
qed

lemma u32_try_i64_None:
  "u32_try_i64 n = None \<longleftrightarrow> sint n < 0 \<or> 2 ^ 32 \<le> sint n"
  by (auto simp: u32_try_i64_def)

lemma u32_try_i64_SomeD: "u32_try_i64 n = Some x \<Longrightarrow> i64_of_u32 x = n"
proof -
  assume a: "u32_try_i64 n = Some x"
  then have b: "0 \<le> sint n" "sint n < 2 ^ 32" and x: "x = word_of_int (sint n)"
    by (auto simp: u32_try_i64_def split: if_splits)
  have "uint x = take_bit 32 (sint n)"
    unfolding x by (simp only: uint_word_of_int_eq) simp
  then have "uint x = sint n"
    using b by (simp add: take_bit_int_eq_self)
  then have "sint (i64_of_u32 x) = sint n"
    by (simp add: conv_simps)
  then show ?thesis
    by (simp add: sint_inject_i64)
qed

lemma u64_try_i64_Some_iff:
  "u64_try_i64 n = Some x \<longleftrightarrow> 0 \<le> sint n \<and> x = n"
  by (auto simp: u64_try_i64_def)

lemma u64_try_i64_None [conv_simps]: "u64_try_i64 n = None \<longleftrightarrow> sint n < 0"
  by (auto simp: u64_try_i64_def)

lemma i64_try_u64_Some_iff:
  "i64_try_u64 x = Some n \<longleftrightarrow> uint x < 2 ^ 63 \<and> n = x"
  by (auto simp: i64_try_u64_def)

lemma sint_eq_uint_small:
  assumes "uint (x :: i64) < 2 ^ 63"
  shows "sint x = uint x"
proof -
  have "sint (word_of_int (uint x) :: i64) = uint x"
    using assms by (intro sint_word_of_int_i64) (auto intro: order_trans [of _ 0])
  then show ?thesis by simp
qed

lemma uint_eq_sint_nonneg:
  assumes "0 \<le> sint (x :: i64)"
  shows "uint x = sint x"
proof -
  have "uint x = take_bit 64 (sint x)"
    by (simp add: uint_sint)
  also have "\<dots> = sint x"
    using assms sint_i64_bounds [of x] by (simp add: take_bit_int_eq_self)
  finally show ?thesis .
qed

lemma i64_try_usize_Some: "n < 2 ^ 63 \<Longrightarrow> i64_try_usize n = Some (of_nat n)"
  by (simp add: i64_try_usize_def)

lemma sint_of_nat_i64:
  assumes "n < 2 ^ 63"
  shows "sint (of_nat n :: i64) = int n"
proof -
  have "int n < 2 ^ 63"
    using assms by (metis of_nat_less_iff of_nat_numeral of_nat_power)
  then have "sint (word_of_int (int n) :: i64) = int n"
    by (intro sint_word_of_int_i64) auto
  then show ?thesis by simp
qed

section \<open>Rust's \<open>Result\<close>\<close>

datatype ('a, 'e) result = Ok 'a | Err 'e

text \<open>The \<open>?\<close> operator, \<open>map_err\<close> and \<open>Option::ok_or_else\<close>.\<close>

fun res_bind :: "('a, 'e) result \<Rightarrow> ('a \<Rightarrow> ('b, 'e) result) \<Rightarrow> ('b, 'e) result" where
  "res_bind (Ok a) f = f a"
| "res_bind (Err e) f = Err e"

fun map_err :: "('e \<Rightarrow> 'f) \<Rightarrow> ('a, 'e) result \<Rightarrow> ('a, 'f) result" where
  "map_err f (Ok a) = Ok a"
| "map_err f (Err e) = Err (f e)"

fun ok_or :: "'e \<Rightarrow> 'a option \<Rightarrow> ('a, 'e) result" where
  "ok_or e None = Err e"
| "ok_or e (Some a) = Ok a"

fun is_ok :: "('a, 'e) result \<Rightarrow> bool" where
  "is_ok (Ok a) \<longleftrightarrow> True"
| "is_ok (Err e) \<longleftrightarrow> False"

lemma res_bind_Ok_iff: "res_bind r f = Ok b \<longleftrightarrow> (\<exists>a. r = Ok a \<and> f a = Ok b)"
  by (cases r) auto

lemma is_ok_map_err [simp]: "is_ok (map_err f r) \<longleftrightarrow> is_ok r"
  by (cases r) simp_all

lemma map_err_Ok_iff [simp]: "map_err f r = Ok a \<longleftrightarrow> r = Ok a"
  by (cases r) auto

lemma ok_or_Ok_iff [simp]: "ok_or e x = Ok a \<longleftrightarrow> x = Some a"
  by (cases x) auto

text \<open>The loop that converts every element and stops at the first error
  (\<open>for x in xs { out.push(f(x)?) }\<close>).\<close>

fun try_map :: "('a \<Rightarrow> ('b, 'e) result) \<Rightarrow> 'a list \<Rightarrow> ('b list, 'e) result" where
  "try_map f [] = Ok []"
| "try_map f (x # xs) = res_bind (f x) (\<lambda>y. res_bind (try_map f xs) (\<lambda>ys. Ok (y # ys)))"

lemma try_map_Ok_list_all2:
  "try_map f xs = Ok ys \<longleftrightarrow> list_all2 (\<lambda>x y. f x = Ok y) xs ys"
  by (induction xs arbitrary: ys) (auto simp: res_bind_Ok_iff list_all2_Cons1)

lemma try_map_all_Ok:
  "(\<And>x. x \<in> set xs \<Longrightarrow> f x = Ok (g x)) \<Longrightarrow> try_map f xs = Ok (map g xs)"
  by (induction xs) auto

lemma try_map_Err_in: "try_map f xs = Err e \<Longrightarrow> \<exists>x \<in> set xs. f x = Err e"
proof (induction xs)
  case Nil
  then show ?case by simp
next
  case (Cons x xs)
  then show ?case
    by (cases "f x"; cases "try_map f xs") auto
qed

lemma try_map_has_Err: "x \<in> set xs \<Longrightarrow> f x = Err e \<Longrightarrow> \<exists>e'. try_map f xs = Err e'"
proof (induction xs)
  case Nil
  then show ?case by simp
next
  case (Cons y xs)
  then show ?case
    by (cases "f y"; cases "try_map f xs") auto
qed

section \<open>Decimal rendering (\<open>{}\<close> of an integer)\<close>

definition digit_char :: "nat \<Rightarrow> char" where
  "digit_char d = char_of (48 + d)"

fun show_nat :: "nat \<Rightarrow> string" where
  "show_nat n = (if n < 10 then [digit_char n] else show_nat (n div 10) @ [digit_char (n mod 10)])"

declare show_nat.simps [simp del]

definition show_int :: "int \<Rightarrow> string" where
  "show_int k = (if k < 0 then ''-'' @ show_nat (nat (- k)) else show_nat (nat k))"

section \<open>Lists: sorting by a key, filtering, truncating\<close>

lemma strict_sorted_map_distinct: "sorted_wrt (<) (map f xs) \<Longrightarrow> distinct xs"
  for f :: "'a \<Rightarrow> 'b::linorder"
  by (meson distinct_map strict_sorted_iff)

lemma sort_key_strict_sorted:
  fixes f :: "'a \<Rightarrow> 'b::linorder"
  assumes "sorted_wrt (<) (map f xs)"
  shows "sort_key f xs = xs"
  using assms by (simp add: sort_key_id_if_sorted strict_sorted_iff)

lemma sorted_wrt_map_filter:
  "sorted_wrt P (map f xs) \<Longrightarrow> sorted_wrt P (map f (filter Q xs))"
  by (simp add: sorted_wrt_map sorted_wrt_filter)

lemma sorted_wrt_map_take:
  "sorted_wrt P (map f xs) \<Longrightarrow> sorted_wrt P (map f (take n xs))"
  by (metis sorted_wrt_take take_map)

lemma filter_le_take_strict:
  fixes f :: "'a \<Rightarrow> 'b::linorder"
  assumes "sorted_wrt (<) (map f xs)" and "x \<in> set (take n xs)" and "y \<in> set xs" and "f y \<le> f x"
  shows "y \<in> set (take n xs)"
proof (rule ccontr)
  assume "y \<notin> set (take n xs)"
  then have y: "y \<in> set (drop n xs)"
    using assms(3) by (metis append_take_drop_id Un_iff set_append)
  have "sorted_wrt (<) (map f (take n xs) @ map f (drop n xs))"
    using assms(1) by (metis append_take_drop_id map_append)
  then have "f x < f y"
    using assms(2) y by (simp add: sorted_wrt_append)
  with assms(4) show False by simp
qed

end
