(* ===== verification/Proto.thy ===== *)
theory Proto
  imports Prelude
begin

text \<open>
  The messages of the gRPC interface and its method table, as the committed bindings
  (crates/proto/src/generated/miden_note_transport.rs, from proto/proto) declare them. The wire
  codec (prost) and the HTTP transport (tonic) are not under src/ and are not modelled: requests
  enter the model as decoded messages.
\<close>

section \<open>Messages\<close>

record transport_note =
  tn_header :: bytes
  tn_details :: bytes
  tn_after_block_num :: "u32 option"

record send_note_request =
  snr_note :: "transport_note option"

datatype send_note_response = SendNoteResponse

record fetch_notes_request =
  fnr_tags :: "u32 list"
  fnr_cursor :: u64

record fetch_notes_response =
  fnp_notes :: "transport_note list"
  fnp_cursor :: u64

record stream_notes_request =
  str_tag :: u32
  str_cursor :: u64

record stream_notes_update =
  stu_notes :: "transport_note list"
  stu_cursor :: u64

record proto_timestamp =
  pts_seconds :: i64
  pts_nanos :: "32 word"

record tag_stats =
  ts_tag :: u32
  ts_note_count :: u64
  ts_last_activity :: "proto_timestamp option"

record stats_response =
  sts_total_notes :: u64
  sts_total_tags :: u64
  sts_notes_per_tag :: "tag_stats list"
  sts_version :: string

text \<open>The number of payload bytes of a note: \<open>header.len() + details.len()\<close>.\<close>

definition payload_size :: "transport_note \<Rightarrow> nat" where
  "payload_size n = length (tn_header n) + length (tn_details n)"

section \<open>The method table\<close>

datatype grpc_method = MSendNote | MFetchNotes | MStreamNotes | MStats

text \<open>The \<open>match req.uri().path()\<close> of the generated server; \<open>None\<close> is its \<open>Unimplemented\<close> arm.\<close>

definition server_route :: "string \<Rightarrow> grpc_method option" where
  "server_route path =
     (if path = ''/miden_note_transport.MidenNoteTransport/SendNote'' then Some MSendNote
      else if path = ''/miden_note_transport.MidenNoteTransport/FetchNotes'' then Some MFetchNotes
      else if path = ''/miden_note_transport.MidenNoteTransport/StreamNotes'' then Some MStreamNotes
      else if path = ''/miden_note_transport.MidenNoteTransport/Stats'' then Some MStats
      else None)"

text \<open>The paths the generated client calls.\<close>

fun client_path :: "grpc_method \<Rightarrow> string" where
  "client_path MSendNote = ''/miden_note_transport.MidenNoteTransport/SendNote''"
| "client_path MFetchNotes = ''/miden_note_transport.MidenNoteTransport/FetchNotes''"
| "client_path MStreamNotes = ''/miden_note_transport.MidenNoteTransport/StreamNotes''"
| "client_path MStats = ''/miden_note_transport.MidenNoteTransport/Stats''"

lemma server_route_client_path: "server_route (client_path m) = Some m"
  by (cases m) (simp_all add: server_route_def)

lemma server_route_SomeD: "server_route p = Some m \<Longrightarrow> p = client_path m"
  by (auto simp: server_route_def split: if_splits)

end
