(* ===== verification/Errors.thy ===== *)
theory Errors
  imports Prelude
begin

text \<open>
  The error values of the node: \<open>DatabaseError\<close> with its thiserror \<open>Display\<close> strings and its
  derived \<open>Debug\<close> (crates/node/src/database/error.rs), the conversions into it, the crate error
  \<open>Error\<close> (crates/node/src/error.rs), and the gRPC status the handlers return.

  Errors of third-party crates carry the text those crates render for them as a string; the
  code only matches on their variants and interpolates that text.
\<close>

section \<open>Diesel's error enumeration, as far as the code distinguishes it\<close>

datatype diesel_error_kind =
    UniqueViolation
  | ForeignKeyViolation
  | NotNullViolation
  | UnableToSendCommand
  | OtherErrorKind

datatype diesel_error =
    DieselDatabaseError diesel_error_kind string
  | DieselNotFound
  | RollbackTransaction
  | AlreadyInTransaction
  | NotInTransaction
  | OtherDieselError string

section \<open>\<open>DatabaseError\<close>\<close>

datatype db_error =
    Configuration string
  | Connection string
  | Migration string
  | QueryExecution string
  | Serialization string
  | Deserialization string
  | ConstraintViolation string
  | Transaction string
  | Pool string
  | InternalDb string

text \<open>\<open>#[error("...")]\<close>: the \<open>Display\<close> text of a database error.\<close>

fun display_db_error :: "db_error \<Rightarrow> string" where
  "display_db_error (Configuration m) = ''Configuration error: '' @ m"
| "display_db_error (Connection m) = ''Connection error: '' @ m"
| "display_db_error (Migration m) = ''Migration error: '' @ m"
| "display_db_error (QueryExecution m) = ''Query execution error: '' @ m"
| "display_db_error (Serialization m) = ''Serialization error: '' @ m"
| "display_db_error (Deserialization m) = ''Deserialization error: '' @ m"
| "display_db_error (ConstraintViolation m) = ''Constraint violation: '' @ m"
| "display_db_error (Transaction m) = ''Transaction error: '' @ m"
| "display_db_error (Pool m) = ''Connection pool error: '' @ m"
| "display_db_error (InternalDb m) = ''Internal error: '' @ m"

text \<open>
  \<open>#[derive(Debug)]\<close>: the variant name and the quoted message. A string is quoted with Rust's
  escapes for the quote, the backslash and the usual control characters.
\<close>

definition debug_char :: "char \<Rightarrow> string" where
  "debug_char c =
     (if c = CHR 0x22 then [CHR 0x5C, CHR 0x22]
      else if c = CHR 0x5C then [CHR 0x5C, CHR 0x5C]
      else if c = CHR 0x0A then [CHR 0x5C, CHR ''n'']
      else if c = CHR 0x0D then [CHR 0x5C, CHR ''r'']
      else if c = CHR 0x09 then [CHR 0x5C, CHR ''t'']
      else if c = CHR 0x00 then [CHR 0x5C, CHR ''0'']
      else [c])"

definition debug_str :: "string \<Rightarrow> string" where
  "debug_str s = [CHR 0x22] @ concat (map debug_char s) @ [CHR 0x22]"

fun debug_db_error :: "db_error \<Rightarrow> string" where
  "debug_db_error (Configuration m) = ''Configuration('' @ debug_str m @ '')''"
| "debug_db_error (Connection m) = ''Connection('' @ debug_str m @ '')''"
| "debug_db_error (Migration m) = ''Migration('' @ debug_str m @ '')''"
| "debug_db_error (QueryExecution m) = ''QueryExecution('' @ debug_str m @ '')''"
| "debug_db_error (Serialization m) = ''Serialization('' @ debug_str m @ '')''"
| "debug_db_error (Deserialization m) = ''Deserialization('' @ debug_str m @ '')''"
| "debug_db_error (ConstraintViolation m) = ''ConstraintViolation('' @ debug_str m @ '')''"
| "debug_db_error (Transaction m) = ''Transaction('' @ debug_str m @ '')''"
| "debug_db_error (Pool m) = ''Pool('' @ debug_str m @ '')''"
| "debug_db_error (InternalDb m) = ''Internal('' @ m @ '')''"

text \<open>\<open>impl From<diesel::result::Error> for DatabaseError\<close>.\<close>

fun db_error_of_diesel :: "diesel_error \<Rightarrow> db_error" where
  "db_error_of_diesel (DieselDatabaseError kind info) =
     (case kind of
        UniqueViolation \<Rightarrow> ConstraintViolation (''Unique constraint violation: '' @ info)
      | ForeignKeyViolation \<Rightarrow> ConstraintViolation (''Foreign key constraint violation: '' @ info)
      | NotNullViolation \<Rightarrow> ConstraintViolation (''Not null constraint violation: '' @ info)
      | _ \<Rightarrow> QueryExecution (''Database error: '' @ info))"
| "db_error_of_diesel DieselNotFound = QueryExecution ''Record not found''"
| "db_error_of_diesel RollbackTransaction = Transaction ''Transaction was rolled back''"
| "db_error_of_diesel AlreadyInTransaction = Transaction ''Already in transaction''"
| "db_error_of_diesel NotInTransaction = Transaction ''Not in transaction''"
| "db_error_of_diesel (OtherDieselError e) = QueryExecution (''Diesel error: '' @ e)"

text \<open>The conversions from the pool's, the interaction wrapper's and the migrator's errors.\<close>

definition db_error_of_pool :: "string \<Rightarrow> db_error" where
  "db_error_of_pool e = Pool (''Connection pool error: '' @ e)"

definition db_error_of_interact :: "string \<Rightarrow> db_error" where
  "db_error_of_interact e = Connection (''Connection interaction error: '' @ e)"

definition db_error_of_migration :: "string \<Rightarrow> db_error" where
  "db_error_of_migration e = Migration (''Migration error: '' @ e)"

section \<open>gRPC status and the crate error\<close>

datatype grpc_code =
    GrpcOk
  | InvalidArgument
  | ResourceExhausted
  | Internal
  | Unimplemented
  | Unknown

record status =
  st_code :: grpc_code
  st_message :: string

definition invalid_argument :: "string \<Rightarrow> status" where
  "invalid_argument m = \<lparr>st_code = InvalidArgument, st_message = m\<rparr>"

definition resource_exhausted :: "string \<Rightarrow> status" where
  "resource_exhausted m = \<lparr>st_code = ResourceExhausted, st_message = m\<rparr>"

definition internal :: "string \<Rightarrow> status" where
  "internal m = \<lparr>st_code = Internal, st_message = m\<rparr>"

definition unknown :: "string \<Rightarrow> status" where
  "unknown m = \<lparr>st_code = Unknown, st_message = m\<rparr>"

lemmas status_defs = invalid_argument_def resource_exhausted_def internal_def unknown_def

datatype node_error =
    ErrDatabase db_error
  | ErrIo string
  | ErrGrpcStatus status
  | ErrGrpcTransport string
  | ErrInternal string
  | ErrGeneric string

text \<open>\<open>impl From<tonic::Status> for Error\<close>; the derived \<open>#[from]\<close> conversions are the constructors.\<close>

definition node_error_of_status :: "status \<Rightarrow> node_error" where
  "node_error_of_status s = ErrGrpcStatus s"

text \<open>Which database errors a violated constraint of the schema can become.\<close>

lemma db_error_of_diesel_constraint_iff:
  "(\<exists>m. db_error_of_diesel e = ConstraintViolation m) \<longleftrightarrow>
   (\<exists>k i. e = DieselDatabaseError k i \<and> k \<in> {UniqueViolation, ForeignKeyViolation, NotNullViolation})"
  by (cases e) (auto split: diesel_error_kind.splits)

lemma db_error_of_diesel_range:
  "\<exists>m. db_error_of_diesel e \<in> {ConstraintViolation m, QueryExecution m, Transaction m}"
  by (cases e) (auto split: diesel_error_kind.splits)

lemma debug_db_error_nonempty: "debug_db_error e \<noteq> []"
  by (cases e) auto

end
