(* ===== verification/Types.thy ===== *)
theory Types
  imports Proto Errors
begin

text \<open>
  The internal note type (crates/node/src/types.rs) and the third-party functions the node calls
  on note headers (the miden-protocol crate) and on points in time (the chrono crate). Those are
  the fields of an \<open>extern\<close> value, an argument of every definition that uses them; what the
  development relies on of them is named in \<open>codec_ok\<close> and \<open>clock_ok\<close>.
\<close>

section \<open>Third-party functions\<close>

text \<open>The text a deserialization error renders as with \<open>{}\<close> and with \<open>{:?}\<close>.\<close>

record deser_error =
  de_display :: string
  de_debug :: string

record ('h, 't) extern =
  hdr_read :: "bytes \<Rightarrow> ('h, deser_error) result"
    \<comment> \<open>\<open>NoteHeader::read_from_bytes\<close>\<close>
  hdr_bytes :: "'h \<Rightarrow> bytes"
    \<comment> \<open>\<open>NoteHeader::to_bytes\<close>\<close>
  hdr_id :: "'h \<Rightarrow> bytes"
    \<comment> \<open>\<open>header.id().as_bytes()\<close>\<close>
  hdr_tag :: "'h \<Rightarrow> u32"
    \<comment> \<open>\<open>header.metadata().tag().as_u32()\<close>\<close>
  ts_micros :: "'t \<Rightarrow> i64"
    \<comment> \<open>\<open>DateTime::timestamp_micros\<close>\<close>
  ts_from_micros :: "i64 \<Rightarrow> 't option"
    \<comment> \<open>\<open>DateTime::from_timestamp_micros\<close>\<close>
  ts_from_timestamp :: "i64 \<Rightarrow> u32 \<Rightarrow> 't option"
    \<comment> \<open>\<open>DateTime::from_timestamp\<close>\<close>
  ts_minus_days :: "'t \<Rightarrow> i64 \<Rightarrow> 't option"
    \<comment> \<open>\<open>t - chrono::Duration::days(n)\<close>; \<open>None\<close> where it panics out of range\<close>

text \<open>Serialization round trip of headers, as miden-protocol documents it.\<close>

definition codec_ok :: "('h, 't) extern \<Rightarrow> bool" where
  "codec_ok x \<longleftrightarrow> (\<forall>h. hdr_read x (hdr_bytes x h) = Ok h)"

text \<open>
  A point in time survives the conversion to microseconds and back up to what microseconds
  can tell apart.
\<close>

definition clock_ok :: "('h, 't) extern \<Rightarrow> bool" where
  "clock_ok x \<longleftrightarrow> (\<forall>t. \<exists>t'. ts_from_micros x (ts_micros x t) = Some t' \<and> ts_micros x t' = ts_micros x t)"

lemma codec_okD: "codec_ok x \<Longrightarrow> hdr_read x (hdr_bytes x h) = Ok h"
  by (simp add: codec_ok_def)

lemma codec_ok_inj: "codec_ok x \<Longrightarrow> hdr_bytes x h = hdr_bytes x h' \<longleftrightarrow> h = h'"
  by (metis codec_okD result.inject(1))

section \<open>\<open>StoredNote\<close>\<close>

record ('h, 't) stored_note =
  sn_header :: 'h
  sn_details :: bytes
  sn_created_at :: 't
  sn_seq :: i64
  sn_after_block_num :: "u32 option"

text \<open>\<open>impl From<StoredNote> for TransportNote\<close>.\<close>

definition transport_of_stored :: "('h, 't) extern \<Rightarrow> ('h, 't) stored_note \<Rightarrow> transport_note" where
  "transport_of_stored x snote =
     \<lparr>tn_header = hdr_bytes x (sn_header snote),
      tn_details = sn_details snote,
      tn_after_block_num = sn_after_block_num snote\<rparr>"

text \<open>
  \<open>proto_timestamp_to_datetime\<close>: the nanoseconds are an \<open>i32\<close> on the wire and must be a \<open>u32\<close>.
\<close>

definition proto_timestamp_to_datetime ::
  "('h, 't) extern \<Rightarrow> proto_timestamp \<Rightarrow> ('t, string) result" where
  "proto_timestamp_to_datetime x pts =
     (if sint (pts_nanos pts) < 0 then Err ''Negative timestamp nanoseconds''
      else ok_or ''Invalid timestamp'' (ts_from_timestamp x (pts_seconds pts) (pts_nanos pts)))"

section \<open>A concrete instance of the third-party functions\<close>

text \<open>
  A header of two bytes, its identifier and its tag; decoding ignores what follows them. Time
  is a count of microseconds. Used only where a statement is applied to a concrete input.
\<close>

type_synonym mini_header = "u8 \<times> u8"

fun mini_read :: "bytes \<Rightarrow> (mini_header, deser_error) result" where
  "mini_read (i # t # _) = Ok (i, t)"
| "mini_read _ = Err \<lparr>de_display = ''unexpected EOF'', de_debug = ''UnexpectedEOF''\<rparr>"

definition mini_extern :: "(mini_header, i64) extern" where
  "mini_extern =
     \<lparr>hdr_read = mini_read,
      hdr_bytes = (\<lambda>(i, t). [i, t]),
      hdr_id = (\<lambda>(i, t). [i]),
      hdr_tag = (\<lambda>(i, t). ucast t),
      ts_micros = (\<lambda>t. t),
      ts_from_micros = Some,
      ts_from_timestamp = (\<lambda>s n. Some (s * 1000000 + ucast n div 1000)),
      ts_minus_days = (\<lambda>t n.
        (let m = sint t - sint n * 86400000000
         in if - (2 ^ 63) \<le> m then Some (word_of_int m) else None))\<rparr>"

lemma mini_extern_simps [simp]:
  "hdr_read mini_extern = mini_read"
  "hdr_bytes mini_extern (i, t) = [i, t]"
  "hdr_id mini_extern (i, t) = [i]"
  "hdr_tag mini_extern (i, t) = ucast t"
  "ts_micros mini_extern m = m"
  "ts_from_micros mini_extern m = Some m"
  by (simp_all add: mini_extern_def)

lemma mini_codec_ok: "codec_ok mini_extern"
  by (auto simp: codec_ok_def)

lemma mini_clock_ok: "clock_ok mini_extern"
  by (simp add: clock_ok_def)

end
