(* ===== verification/Models.thy ===== *)
theory Models
  imports Types
begin

text \<open>
  The rows of the \<open>notes\<close> table and their conversions to and from \<open>StoredNote\<close>
  (crates/node/src/database/sqlite/models.rs, schema.rs).
\<close>

section \<open>Rows\<close>

record note_row =
  nr_seq :: i64
  nr_id :: bytes
  nr_tag :: i64
  nr_header :: bytes
  nr_details :: bytes
  nr_created_at :: i64
  nr_after_block_num :: "i64 option"

text \<open>\<open>NewNote\<close>: a row without \<open>seq\<close>, which the database assigns.\<close>

record new_note =
  nn_id :: bytes
  nn_tag :: i64
  nn_header :: bytes
  nn_details :: bytes
  nn_created_at :: i64
  nn_after_block_num :: "i64 option"

text \<open>The row an insertion of a \<open>NewNote\<close> under a given \<open>seq\<close> creates.\<close>

definition row_of_new :: "i64 \<Rightarrow> new_note \<Rightarrow> note_row" where
  "row_of_new s n =
     \<lparr>nr_seq = s, nr_id = nn_id n, nr_tag = nn_tag n, nr_header = nn_header n,
      nr_details = nn_details n, nr_created_at = nn_created_at n,
      nr_after_block_num = nn_after_block_num n\<rparr>"

lemma row_of_new_simps [simp]:
  "nr_seq (row_of_new s n) = s"
  "nr_id (row_of_new s n) = nn_id n"
  "nr_tag (row_of_new s n) = nn_tag n"
  "nr_header (row_of_new s n) = nn_header n"
  "nr_details (row_of_new s n) = nn_details n"
  "nr_created_at (row_of_new s n) = nn_created_at n"
  "nr_after_block_num (row_of_new s n) = nn_after_block_num n"
  by (simp_all add: row_of_new_def)

section \<open>Conversions\<close>

text \<open>\<open>impl From<&StoredNote> for NewNote\<close>.\<close>

definition new_note_of_stored :: "('h, 't) extern \<Rightarrow> ('h, 't) stored_note \<Rightarrow> new_note" where
  "new_note_of_stored x note =
     \<lparr>nn_id = hdr_id x (sn_header note),
      nn_tag = i64_of_u32 (hdr_tag x (sn_header note)),
      nn_header = hdr_bytes x (sn_header note),
      nn_details = sn_details note,
      nn_created_at = ts_micros x (sn_created_at note),
      nn_after_block_num = map_option i64_of_u32 (sn_after_block_num note)\<rparr>"

text \<open>
  \<open>.map(|n| u32::try_from(n).map_err(..)).transpose()?\<close> on the nullable column.
\<close>

fun block_num_of_column :: "i64 option \<Rightarrow> (u32 option, db_error) result" where
  "block_num_of_column None = Ok None"
| "block_num_of_column (Some n) =
     (case u32_try_i64 n of
        Some b \<Rightarrow> Ok (Some b)
      | None \<Rightarrow> Err (Deserialization (''Invalid after_block_num: '' @ show_int (sint n))))"

text \<open>\<open>impl TryFrom<Note> for StoredNote\<close>: the timestamp, then the header, then the block number.\<close>

definition stored_of_row ::
  "('h, 't) extern \<Rightarrow> note_row \<Rightarrow> (('h, 't) stored_note, db_error) result" where
  "stored_of_row x note =
     res_bind (ok_or (Deserialization (''Invalid timestamp microseconds: '' @ show_int (sint (nr_created_at note))))
                 (ts_from_micros x (nr_created_at note))) (\<lambda>created_at.
     res_bind (map_err (\<lambda>e. Deserialization (''Failed to deserialize header: '' @ de_display e))
                 (hdr_read x (nr_header note))) (\<lambda>header.
     res_bind (block_num_of_column (nr_after_block_num note)) (\<lambda>abn.
     Ok \<lparr>sn_header = header,
         sn_details = nr_details note,
         sn_created_at = created_at,
         sn_seq = nr_seq note,
         sn_after_block_num = abn\<rparr>)))"

section \<open>Which rows convert\<close>

lemma block_num_roundtrip [simp]: "block_num_of_column (map_option i64_of_u32 b) = Ok b"
  by (cases b) auto

lemma block_num_of_column_Ok:
  "block_num_of_column c = Ok b \<longleftrightarrow> c = map_option i64_of_u32 b"
proof (cases c)
  case None
  then show ?thesis by (auto simp: eq_commute)
next
  case (Some n)
  show ?thesis
  proof (cases "u32_try_i64 n")
    case None
    then have "i64_of_u32 y \<noteq> n" for y
      by auto
    with Some None show ?thesis by (cases b) auto
  next
    case (Some y)
    from u32_try_i64_SomeD [OF this] have "n = i64_of_u32 y" by simp
    then show ?thesis
      using \<open>c = Some n\<close> by (auto simp: map_option_case split: option.splits)
  qed
qed

lemma stored_of_row_OkD:
  assumes "stored_of_row x r = Ok s"
  shows "sn_seq s = nr_seq r" "sn_details s = nr_details r"
    "hdr_read x (nr_header r) = Ok (sn_header s)"
    "ts_from_micros x (nr_created_at r) = Some (sn_created_at s)"
    "nr_after_block_num r = map_option i64_of_u32 (sn_after_block_num s)"
  using assms by (auto simp: stored_of_row_def res_bind_Ok_iff block_num_of_column_Ok)

text \<open>A row that \<open>store_note\<close> wrote: its columns come from a stored note.\<close>

definition well_formed_row :: "('h, 't) extern \<Rightarrow> note_row \<Rightarrow> bool" where
  "well_formed_row x r \<longleftrightarrow> (\<exists>note. r = row_of_new (nr_seq r) (new_note_of_stored x note))"

text \<open>The note a reader gets for a written row: the stored note with the row's \<open>seq\<close>.\<close>

lemma stored_of_written_row:
  assumes "codec_ok x" and "clock_ok x"
  shows "\<exists>t. ts_micros x t = ts_micros x (sn_created_at note) \<and>
    stored_of_row x (row_of_new s (new_note_of_stored x note)) =
      Ok (note\<lparr>sn_seq := s, sn_created_at := t\<rparr>)"
proof -
  obtain t where t: "ts_from_micros x (ts_micros x (sn_created_at note)) = Some t"
      "ts_micros x t = ts_micros x (sn_created_at note)"
    using assms(2) by (auto simp: clock_ok_def)
  have "stored_of_row x (row_of_new s (new_note_of_stored x note)) =
      Ok (note\<lparr>sn_seq := s, sn_created_at := t\<rparr>)"
    using t(1) assms(1) by (simp add: stored_of_row_def new_note_of_stored_def codec_okD)
  with t(2) show ?thesis by blast
qed

lemma well_formed_row_Ok:
  assumes "codec_ok x" "clock_ok x" "well_formed_row x r"
  shows "\<exists>s. stored_of_row x r = Ok s"
  using assms stored_of_written_row [of x] by (metis well_formed_row_def)

lemma well_formed_row_of_new [intro, simp]:
  "well_formed_row x (row_of_new s (new_note_of_stored x note))"
  by (auto simp: well_formed_row_def)

text \<open>
  What a reader receives for a row, stated on the columns alone: the specification the query
  handlers are proved against.
\<close>

definition row_transport :: "note_row \<Rightarrow> transport_note" where
  "row_transport r =
     \<lparr>tn_header = nr_header r,
      tn_details = nr_details r,
      tn_after_block_num = Option.bind (nr_after_block_num r) u32_try_i64\<rparr>"

lemma transport_of_well_formed:
  assumes "codec_ok x" and "well_formed_row x r" and "stored_of_row x r = Ok s"
  shows "transport_of_stored x s = row_transport r"
proof -
  obtain n where r: "r = row_of_new (nr_seq r) (new_note_of_stored x n)"
    using assms(2) by (auto simp: well_formed_row_def)
  have h: "nr_header r = hdr_bytes x (sn_header n)"
    by (subst r) (simp add: new_note_of_stored_def)
  then have "sn_header s = sn_header n"
    using stored_of_row_OkD(3) [OF assms(3)] assms(1) by (simp add: codec_okD)
  then show ?thesis
    using h stored_of_row_OkD [OF assms(3)]
    by (cases "sn_after_block_num s") (auto simp: transport_of_stored_def row_transport_def)
qed

end
