(* ===== verification/NotesTable.thy ===== *)
theory NotesTable
  imports Models
begin

text \<open>
  The \<open>notes\<close> table and the SQL statements the node runs on it. The schema is that of the
  migrations (crates/node/src/database/sqlite/migrations): \<open>seq INTEGER PRIMARY KEY
  AUTOINCREMENT\<close>, \<open>id BLOB NOT NULL UNIQUE\<close>; the statements are the Diesel queries of
  crates/node/src/database/sqlite/mod.rs read as SQL. A table value holds the rows in insertion
  order and the table's entry of \<open>sqlite_sequence\<close>, the largest \<open>seq\<close> ever assigned.

  Failures of the engine itself (I/O, a busy timeout) are not decided here: the callers in
  theory \<open>SqliteDb\<close> take them as an argument.
\<close>

section \<open>The table\<close>

record notes_table =
  tbl_rows :: "note_row list"
  tbl_seq :: i64

definition empty_table :: notes_table where
  "empty_table = \<lparr>tbl_rows = [], tbl_seq = 0\<rparr>"

text \<open>\<open>AUTOINCREMENT\<close>: one more than the largest rowid that was ever in the table.\<close>

definition max_rowid :: "notes_table \<Rightarrow> int" where
  "max_rowid t = foldr (\<lambda>r m. max (sint (nr_seq r)) m) (tbl_rows t) (sint (tbl_seq t))"

definition next_rowid :: "notes_table \<Rightarrow> i64 option" where
  "next_rowid t =
     (let m = max_rowid t in if m < 2 ^ 63 - 1 then Some (word_of_int (m + 1)) else None)"

section \<open>Statements\<close>

text \<open>\<open>INSERT INTO notes (id, tag, header, details, created_at, after_block_num) VALUES (..)\<close>.\<close>

definition sql_insert :: "new_note \<Rightarrow> notes_table \<Rightarrow> (notes_table, diesel_error) result" where
  "sql_insert n t =
     (case next_rowid t of
        None \<Rightarrow> Err (DieselDatabaseError OtherErrorKind ''database or disk is full'')
      | Some s \<Rightarrow>
          if nn_id n \<in> set (map nr_id (tbl_rows t))
          then Err (DieselDatabaseError UniqueViolation ''UNIQUE constraint failed: notes.id'')
          else Ok (t\<lparr>tbl_rows := tbl_rows t @ [row_of_new s n], tbl_seq := s\<rparr>))"

text \<open>\<open>SELECT .. WHERE tag IN (..) AND seq > ? ORDER BY seq ASC LIMIT ?\<close>.\<close>

definition sql_select_notes :: "i64 list \<Rightarrow> i64 \<Rightarrow> i64 \<Rightarrow> notes_table \<Rightarrow> note_row list" where
  "sql_select_notes tags cursor limit t =
     take (nat (sint limit))
       (sort_key (\<lambda>r. sint (nr_seq r))
         (filter (\<lambda>r. sint cursor < sint (nr_seq r))
           (filter (\<lambda>r. nr_tag r \<in> set tags) (tbl_rows t))))"

text \<open>\<open>SELECT COUNT(*)\<close>, \<open>SELECT COUNT(DISTINCT tag)\<close>, \<open>SELECT COUNT(*) WHERE id = ?\<close>.\<close>

definition sql_count :: "notes_table \<Rightarrow> i64" where
  "sql_count t = of_nat (length (tbl_rows t))"

definition sql_count_distinct_tag :: "notes_table \<Rightarrow> i64" where
  "sql_count_distinct_tag t = of_nat (length (remdups (map nr_tag (tbl_rows t))))"

definition sql_count_id :: "bytes \<Rightarrow> notes_table \<Rightarrow> i64" where
  "sql_count_id i t = of_nat (length (filter (\<lambda>r. nr_id r = i) (tbl_rows t)))"

text \<open>\<open>DELETE FROM notes WHERE created_at < ?\<close>, with the number of deleted rows.\<close>

definition sql_delete_older :: "i64 \<Rightarrow> notes_table \<Rightarrow> nat \<times> notes_table" where
  "sql_delete_older cutoff t =
     (length (filter (\<lambda>r. sint (nr_created_at r) < sint cutoff) (tbl_rows t)),
      t\<lparr>tbl_rows := filter (\<lambda>r. \<not> sint (nr_created_at r) < sint cutoff) (tbl_rows t)\<rparr>)"

section \<open>The table invariant\<close>

text \<open>
  Rows stand in the order of their \<open>seq\<close>, which are positive, distinct and never above the
  high-water mark; identifiers are distinct.
\<close>

abbreviation row_key :: "note_row \<Rightarrow> int" where
  "row_key r \<equiv> sint (nr_seq r)"

definition table_ok :: "notes_table \<Rightarrow> bool" where
  "table_ok t \<longleftrightarrow>
     sorted_wrt (<) (map row_key (tbl_rows t)) \<and>
     (\<forall>r \<in> set (tbl_rows t). 0 < row_key r \<and> row_key r \<le> sint (tbl_seq t)) \<and>
     0 \<le> sint (tbl_seq t) \<and>
     distinct (map nr_id (tbl_rows t))"

lemma table_okD:
  assumes "table_ok t"
  shows "sorted_wrt (<) (map row_key (tbl_rows t))"
    "r \<in> set (tbl_rows t) \<Longrightarrow> 0 < row_key r"
    "r \<in> set (tbl_rows t) \<Longrightarrow> row_key r \<le> sint (tbl_seq t)"
    "0 \<le> sint (tbl_seq t)"
    "distinct (map nr_id (tbl_rows t))"
  using assms by (auto simp: table_ok_def)

lemma table_ok_empty [simp, intro]: "table_ok empty_table"
  by (simp add: table_ok_def empty_table_def)

lemma foldr_max_bound:
  fixes f :: "'a \<Rightarrow> int"
  assumes "\<And>r. r \<in> set rs \<Longrightarrow> f r \<le> m"
  shows "foldr (\<lambda>r k. max (f r) k) rs m = m"
  using assms by (induction rs) (auto simp: max_def)

lemma max_rowid_ok: "table_ok t \<Longrightarrow> max_rowid t = sint (tbl_seq t)"
  unfolding max_rowid_def by (rule foldr_max_bound) (rule table_okD(3))

lemma next_rowid_ok:
  assumes "table_ok t" and "next_rowid t = Some s"
  shows "sint s = sint (tbl_seq t) + 1"
proof -
  have b: "sint (tbl_seq t) < 2 ^ 63 - 1" and s: "s = word_of_int (sint (tbl_seq t) + 1)"
    using assms by (auto simp: next_rowid_def max_rowid_ok Let_def split: if_splits)
  show ?thesis
    unfolding s using b table_okD(4) [OF assms(1)] by (intro sint_word_of_int_i64) auto
qed

lemma next_rowid_available:
  assumes "table_ok t" and "sint (tbl_seq t) < 2 ^ 63 - 1"
  shows "\<exists>s. next_rowid t = Some s"
  using assms by (simp add: next_rowid_def max_rowid_ok Let_def)

section \<open>What each statement does to a well-formed table\<close>

lemma sql_insert_OkD:
  assumes "table_ok t" and "sql_insert n t = Ok t'"
  obtains s where "next_rowid t = Some s" "sint s = sint (tbl_seq t) + 1"
    "nn_id n \<notin> nr_id ` set (tbl_rows t)"
    "tbl_rows t' = tbl_rows t @ [row_of_new s n]" "tbl_seq t' = s"
proof -
  obtain s where s: "next_rowid t = Some s"
    using assms(2) by (auto simp: sql_insert_def split: option.splits)
  show ?thesis
    using that [OF s next_rowid_ok [OF assms(1) s]] assms(2) s
    by (auto simp: sql_insert_def split: if_splits)
qed

lemma sql_insert_ok:
  assumes "table_ok t" and "sql_insert n t = Ok t'"
  shows "table_ok t'"
proof -
  obtain s where s: "sint s = sint (tbl_seq t) + 1" "nn_id n \<notin> nr_id ` set (tbl_rows t)"
      "tbl_rows t' = tbl_rows t @ [row_of_new s n]" "tbl_seq t' = s"
    using assms by (rule sql_insert_OkD)
  then show ?thesis
    using table_okD [OF assms(1)] unfolding table_ok_def
    by (force simp: sorted_wrt_append)
qed

lemma sql_insert_duplicate:
  assumes "nn_id n \<in> nr_id ` set (tbl_rows t)"
  shows "\<exists>k m. sql_insert n t = Err (DieselDatabaseError k m)"
  using assms by (auto simp: sql_insert_def split: option.splits)

lemma sql_insert_fresh:
  assumes "table_ok t" and "nn_id n \<notin> nr_id ` set (tbl_rows t)" and "sint (tbl_seq t) < 2 ^ 63 - 1"
  shows "\<exists>t'. sql_insert n t = Ok t'"
  using next_rowid_available [OF assms(1,3)] assms(2) by (auto simp: sql_insert_def)

text \<open>On a well-formed table the \<open>ORDER BY\<close> does not move anything.\<close>

lemma sql_select_notes_ok:
  assumes "table_ok t"
  shows "sql_select_notes tags c limit t =
    take (nat (sint limit))
      (filter (\<lambda>r. nr_tag r \<in> set tags \<and> sint c < row_key r) (tbl_rows t))"
proof -
  have "sorted_wrt (<) (map row_key (filter (\<lambda>r. sint c < row_key r)
      (filter (\<lambda>r. nr_tag r \<in> set tags) (tbl_rows t))))"
    by (intro sorted_wrt_map_filter table_okD(1) assms)
  then show ?thesis
    by (simp add: sql_select_notes_def sort_key_strict_sorted conj_commute)
qed

lemma sql_select_notes_subset: "set (sql_select_notes tags c limit t) \<subseteq> set (tbl_rows t)"
  by (auto simp: sql_select_notes_def dest!: in_set_takeD)

lemma sql_delete_older_ok: "table_ok t \<Longrightarrow> table_ok (snd (sql_delete_older cutoff t))"
  by (auto simp: table_ok_def sql_delete_older_def sorted_wrt_map_filter distinct_map_filter)

lemma sql_delete_older_simps [simp]:
  "tbl_rows (snd (sql_delete_older cutoff t)) =
     filter (\<lambda>r. \<not> sint (nr_created_at r) < sint cutoff) (tbl_rows t)"
  "tbl_seq (snd (sql_delete_older cutoff t)) = tbl_seq t"
  by (simp_all add: sql_delete_older_def)

lemma sql_delete_older_count:
  "fst (sql_delete_older cutoff t) + length (tbl_rows (snd (sql_delete_older cutoff t)))
     = length (tbl_rows t)"
  by (simp add: sql_delete_older_def sum_length_filter_compl)

lemma sql_count_id_pos:
  assumes "length (tbl_rows t) < 2 ^ 63"
  shows "0 < sint (sql_count_id i t) \<longleftrightarrow> i \<in> nr_id ` set (tbl_rows t)"
proof -
  have "length (filter (\<lambda>r. nr_id r = i) (tbl_rows t)) < 2 ^ 63"
    using assms length_filter_le le_less_trans by blast
  then have "sint (sql_count_id i t) = int (length (filter (\<lambda>r. nr_id r = i) (tbl_rows t)))"
    by (simp add: sql_count_id_def sint_of_nat_i64)
  then show ?thesis
    by (auto simp: filter_empty_conv)
qed

text \<open>
  A well-formed table has fewer than \<open>2 ^ 63\<close> rows: their \<open>seq\<close> are distinct positive \<open>i64\<close>
  values. So the \<open>COUNT\<close> results never overflow.
\<close>

lemma table_ok_length:
  assumes "table_ok t"
  shows "int (length (tbl_rows t)) \<le> sint (tbl_seq t)"
proof -
  let ?S = "row_key ` set (tbl_rows t)"
  have d: "distinct (map row_key (tbl_rows t))"
    using table_okD(1) [OF assms] by (simp add: strict_sorted_iff)
  have "card ?S = length (tbl_rows t)"
    using distinct_card [OF d] by simp
  moreover have "?S \<subseteq> {1..sint (tbl_seq t)}"
    using table_okD(2,3) [OF assms] by force
  then have "card ?S \<le> card {1..sint (tbl_seq t)}"
    by (intro card_mono) auto
  ultimately show ?thesis
    using table_okD(4) [OF assms] by simp
qed

lemma table_ok_length_bound: "table_ok t \<Longrightarrow> length (tbl_rows t) < 2 ^ 63"
  using table_ok_length [of t] sint_i64_bounds(2) [of "tbl_seq t"] by simp

end
