(* ===== verification/Metrics.thy ===== *)
theory Metrics
  imports Prelude
begin

text \<open>
  The OpenTelemetry instruments of the node (crates/node/src/metrics.rs): counters and
  histograms, the request timers built on them, and the guard that records a duration when a
  timer goes out of scope.

  A \<open>telemetry\<close> value is what the process has reported so far: the instrument writes in order.
  The monotonic clock behind \<open>Instant::now\<close> is the environment's; its successive readings, in
  nanoseconds, are the sequence \<open>tel_clock\<close>, of which \<open>tel_reads\<close> have been consumed.
  The exporter, the meter provider and the conversion of a duration to a floating-point number
  of seconds are the OpenTelemetry crate's and are not modelled: a histogram write carries the
  elapsed nanoseconds.
\<close>

section \<open>Instruments\<close>

datatype counter_name =
    GrpcSendNoteCount
  | GrpcFetchNotesCount
  | DbStoreNoteCount
  | DbFetchNotesCount
  | DbFetchNotesLegacyCursorResetCount
  | DbMaintenanceCleanupNotesCount

datatype histogram_name =
    GrpcSendNoteDuration
  | GrpcSendNoteNoteSize
  | GrpcFetchNotesDuration
  | GrpcFetchNotesRepliedNotesNumber
  | GrpcFetchNotesRepliedNotesSize
  | DbStoreNoteDuration
  | DbFetchNotesDuration
  | DbMaintenanceCleanupNotesDuration

type_synonym attrs = "(string \<times> string) list"

datatype metric_event =
    CounterAdd counter_name u64 attrs
  | HistU64 histogram_name u64 attrs
  | HistDuration histogram_name int attrs

record telemetry =
  tel_clock :: "nat \<Rightarrow> nat"
  tel_reads :: nat
  tel_events :: "metric_event list"

definition emit :: "metric_event \<Rightarrow> telemetry \<Rightarrow> telemetry" where
  "emit e t = t\<lparr>tel_events := tel_events t @ [e]\<rparr>"

text \<open>\<open>Instant::now()\<close>.\<close>

definition instant_now :: "telemetry \<Rightarrow> nat \<times> telemetry" where
  "instant_now t = (tel_clock t (tel_reads t), t\<lparr>tel_reads := Suc (tel_reads t)\<rparr>)"

section \<open>Request timers\<close>

record request_timer =
  rt_operation :: string
  rt_start :: nat
  rt_histogram :: histogram_name

text \<open>\<open>request_count_measure\<close>: reads the clock, counts the request, builds the timer.\<close>

definition request_count_measure ::
  "string \<Rightarrow> counter_name \<Rightarrow> histogram_name \<Rightarrow> telemetry \<Rightarrow> request_timer \<times> telemetry" where
  "request_count_measure operation counter histogram t =
     (let (start, t) = instant_now t;
          t = emit (CounterAdd counter 1 [(''operation'', operation)]) t
      in (\<lparr>rt_operation = operation, rt_start = start, rt_histogram = histogram\<rparr>, t))"

text \<open>\<open>RequestTimer::finish(&self, status)\<close>. It borrows the timer, so the timer stays alive.\<close>

definition finish :: "request_timer \<Rightarrow> string \<Rightarrow> telemetry \<Rightarrow> telemetry" where
  "finish timer stat t =
     (let (now, t) = instant_now t;
          elapsed = int now - int (rt_start timer)
      in emit (HistDuration (rt_histogram timer) elapsed
                 [(''operation'', rt_operation timer), (''status'', stat)]) t)"

text \<open>\<open>Drop for RequestTimer\<close>: runs whenever the timer leaves its scope, finished or not.\<close>

definition drop_timer :: "request_timer \<Rightarrow> telemetry \<Rightarrow> telemetry" where
  "drop_timer timer t = finish timer ''dropped'' t"

section \<open>The measured operations\<close>

definition grpc_send_note_request :: "u64 \<Rightarrow> telemetry \<Rightarrow> request_timer \<times> telemetry" where
  "grpc_send_note_request size_b t =
     (let operation = ''grpc.send_note.request'';
          t = emit (HistU64 GrpcSendNoteNoteSize size_b [(''operation'', operation)]) t
      in request_count_measure operation GrpcSendNoteCount GrpcSendNoteDuration t)"

definition grpc_fetch_notes_request :: "telemetry \<Rightarrow> request_timer \<times> telemetry" where
  "grpc_fetch_notes_request t =
     request_count_measure ''grpc.fetch_notes'' GrpcFetchNotesCount GrpcFetchNotesDuration t"

definition grpc_fetch_notes_response :: "u64 \<Rightarrow> u64 \<Rightarrow> telemetry \<Rightarrow> telemetry" where
  "grpc_fetch_notes_response number size_b t =
     (let operation = ''grpc.fetch_notes.response'';
          t = emit (HistU64 GrpcFetchNotesRepliedNotesNumber number [(''operation'', operation)]) t
      in emit (HistU64 GrpcFetchNotesRepliedNotesSize size_b [(''operation'', operation)]) t)"

definition db_store_note_timer :: "telemetry \<Rightarrow> request_timer \<times> telemetry" where
  "db_store_note_timer t =
     request_count_measure ''db.store_note'' DbStoreNoteCount DbStoreNoteDuration t"

definition db_fetch_notes_timer :: "telemetry \<Rightarrow> request_timer \<times> telemetry" where
  "db_fetch_notes_timer t =
     request_count_measure ''db.fetch_notes'' DbFetchNotesCount DbFetchNotesDuration t"

definition db_fetch_notes_legacy_cursor_reset :: "telemetry \<Rightarrow> telemetry" where
  "db_fetch_notes_legacy_cursor_reset t = emit (CounterAdd DbFetchNotesLegacyCursorResetCount 1 []) t"

definition db_maintenance_cleanup_notes :: "telemetry \<Rightarrow> request_timer \<times> telemetry" where
  "db_maintenance_cleanup_notes t =
     request_count_measure ''db.maintenance.cleanup_old_notes''
       DbMaintenanceCleanupNotesCount DbMaintenanceCleanupNotesDuration t"

lemmas timer_defs =
  request_count_measure_def finish_def drop_timer_def instant_now_def emit_def
  grpc_send_note_request_def grpc_fetch_notes_request_def grpc_fetch_notes_response_def
  db_store_note_timer_def db_fetch_notes_timer_def db_fetch_notes_legacy_cursor_reset_def
  db_maintenance_cleanup_notes_def

section \<open>Reading the record back\<close>

text \<open>Total of a counter, and the durations a histogram holds for one status label.\<close>

fun counter_total :: "counter_name \<Rightarrow> metric_event list \<Rightarrow> nat" where
  "counter_total c [] = 0"
| "counter_total c (CounterAdd d n a # es) = (if d = c then unat n else 0) + counter_total c es"
| "counter_total c (HistU64 h n a # es) = counter_total c es"
| "counter_total c (HistDuration h n a # es) = counter_total c es"

fun duration_records :: "histogram_name \<Rightarrow> metric_event list \<Rightarrow> string list" where
  "duration_records h [] = []"
| "duration_records h (HistDuration g d a # es) =
     (if g = h then (case map_of a ''status'' of None \<Rightarrow> [] | Some s \<Rightarrow> [s]) else [])
     @ duration_records h es"
| "duration_records h (CounterAdd c n a # es) = duration_records h es"
| "duration_records h (HistU64 g n a # es) = duration_records h es"

lemma counter_total_append [simp]:
  "counter_total c (xs @ ys) = counter_total c xs + counter_total c ys"
  by (induction c xs rule: counter_total.induct) auto

lemma duration_records_append [simp]:
  "duration_records h (xs @ ys) = duration_records h xs @ duration_records h ys"
  by (induction h xs rule: duration_records.induct) auto

text \<open>Telemetry is append-only: no operation removes or rewrites an event.\<close>

definition tel_extends :: "telemetry \<Rightarrow> telemetry \<Rightarrow> bool" where
  "tel_extends t t' \<longleftrightarrow> (\<exists>es. tel_events t' = tel_events t @ es)"

lemma tel_extends_refl [simp]: "tel_extends t t"
  by (simp add: tel_extends_def)

lemma tel_extends_trans: "tel_extends a b \<Longrightarrow> tel_extends b c \<Longrightarrow> tel_extends a c"
  by (auto simp: tel_extends_def)

end
