(* ===== verification/SqliteDb.thy ===== *)
theory SqliteDb
  imports NotesTable Metrics
begin

text \<open>
  The SQLite backend of the database (crates/node/src/database/sqlite/mod.rs): transactions on
  a pooled connection, and one definition per method of the \<open>DatabaseBackend\<close> trait, with its
  request timer and every error return. \<open>Database\<close> (crates/node/src/database/mod.rs) forwards to
  these methods unchanged.

  What the pool, the blocking-thread wrapper and the engine may do to a call is its argument
  \<open>faults\<close>: each field that holds an error makes that step of the call fail.
\<close>

section \<open>Constants\<close>

definition FETCH_NOTES_BATCH_SIZE :: i64 where
  "FETCH_NOTES_BATCH_SIZE = 500"

definition LEGACY_CURSOR_THRESHOLD :: u64 where
  "LEGACY_CURSOR_THRESHOLD = 1000000000000"

section \<open>Running a closure on a connection\<close>

record faults =
  f_pool :: "string option"
    \<comment> \<open>\<open>pool.get()\<close> fails, with the rendered \<open>PoolError\<close>\<close>
  f_interact :: "string option"
    \<comment> \<open>\<open>conn.interact(..)\<close> fails, with the rendered \<open>InteractError\<close>\<close>
  f_begin :: "diesel_error option"
    \<comment> \<open>\<open>BEGIN\<close> fails\<close>
  f_stmt :: "nat \<Rightarrow> diesel_error option"
    \<comment> \<open>the engine fails the call's \<open>k\<close>-th statement\<close>
  f_commit :: "diesel_error option"
    \<comment> \<open>\<open>COMMIT\<close> fails; Diesel rolls back\<close>

definition no_faults :: faults where
  "no_faults = \<lparr>f_pool = None, f_interact = None, f_begin = None, f_stmt = (\<lambda>_. None), f_commit = None\<rparr>"

text \<open>The \<open>?\<close> on a Diesel statement: an engine failure, or the statement's own result.\<close>

definition run_stmt ::
  "faults \<Rightarrow> nat \<Rightarrow> ('a, diesel_error) result \<Rightarrow> ('a, db_error) result" where
  "run_stmt f k r =
     (case f_stmt f k of
        Some e \<Rightarrow> Err (db_error_of_diesel e)
      | None \<Rightarrow> map_err db_error_of_diesel r)"

text \<open>\<open>SqliteDatabase::transact\<close>: an error of the closure rolls the transaction back.\<close>

definition transact ::
  "faults \<Rightarrow> string \<Rightarrow> ('db \<Rightarrow> ('a \<times> 'db, db_error) result) \<Rightarrow> 'db \<Rightarrow> ('a, db_error) result \<times> 'db" where
  "transact f msg q db =
     (case f_pool f of
        Some e \<Rightarrow> (Err (Connection (''Failed to get connection: '' @ e)), db)
      | None \<Rightarrow>
     (case f_interact f of
        Some e \<Rightarrow> (Err (QueryExecution (''Failed to '' @ msg @ '': '' @ e)), db)
      | None \<Rightarrow>
     (case f_begin f of
        Some e \<Rightarrow> (Err (db_error_of_diesel e), db)
      | None \<Rightarrow>
     (case q db of
        Err e \<Rightarrow> (Err e, db)
      | Ok (a, db') \<Rightarrow>
     (case f_commit f of
        Some e \<Rightarrow> (Err (db_error_of_diesel e), db)
      | None \<Rightarrow> (Ok a, db'))))))"

text \<open>\<open>SqliteDatabase::query\<close>: the same without a transaction; its closures only read.\<close>

definition query ::
  "faults \<Rightarrow> string \<Rightarrow> ('db \<Rightarrow> ('a, db_error) result) \<Rightarrow> 'db \<Rightarrow> ('a, db_error) result" where
  "query f msg q db =
     (case f_pool f of
        Some e \<Rightarrow> Err (Connection (''Failed to get connection: '' @ e))
      | None \<Rightarrow>
     (case f_interact f of
        Some e \<Rightarrow> Err (QueryExecution (''Failed to '' @ msg @ '': '' @ e))
      | None \<Rightarrow> q db))"

lemma transact_OkD:
  assumes "transact f msg q db = (Ok a, db')"
  shows "q db = Ok (a, db')"
  using assms by (auto simp: transact_def split: option.splits result.splits)

lemma transact_ErrD: "transact f msg q db = (Err e, db') \<Longrightarrow> db' = db"
  by (auto simp: transact_def split: option.splits result.splits)

lemma transact_no_faults [simp]:
  "transact no_faults msg q db = (case q db of Ok (a, db') \<Rightarrow> (Ok a, db') | Err e \<Rightarrow> (Err e, db))"
  by (auto simp: transact_def no_faults_def split: result.splits)

lemma run_stmt_no_faults [simp]: "run_stmt no_faults k r = map_err db_error_of_diesel r"
  by (simp add: run_stmt_def no_faults_def)

lemma run_stmt_OkD: "run_stmt f k r = Ok a \<Longrightarrow> r = Ok a"
  by (auto simp: run_stmt_def split: option.splits)

lemma query_no_faults [simp]: "query no_faults msg q db = q db"
  by (simp add: query_def no_faults_def)

lemma query_OkD: "query f msg q db = Ok a \<Longrightarrow> q db = Ok a"
  by (auto simp: query_def split: option.splits)

section \<open>The backend's methods\<close>

definition db_store_note ::
  "('h, 't) extern \<Rightarrow> faults \<Rightarrow> ('h, 't) stored_note \<Rightarrow> notes_table \<Rightarrow> telemetry
     \<Rightarrow> (unit, db_error) result \<times> notes_table \<times> telemetry" where
  "db_store_note x f note db tel =
     (let (timer, tel) = db_store_note_timer tel;
          new_note = new_note_of_stored x note;
          (res, db) = transact f ''store note''
            (\<lambda>conn. res_bind (run_stmt f 0 (sql_insert new_note conn)) (\<lambda>conn. Ok ((), conn))) db
      in case res of
           Err e \<Rightarrow> (Err e, db, drop_timer timer tel)
         | Ok _ \<Rightarrow> (Ok (), db, drop_timer timer (finish timer ''ok'' tel)))"

text \<open>The cursor the query runs with: a timestamp-sized one is taken for 0, and counted.\<close>

definition effective_cursor :: "u64 \<Rightarrow> telemetry \<Rightarrow> u64 \<times> telemetry" where
  "effective_cursor cursor tel =
     (if LEGACY_CURSOR_THRESHOLD < cursor then (0, db_fetch_notes_legacy_cursor_reset tel)
      else (cursor, tel))"

definition db_fetch_notes_by_tags ::
  "('h, 't) extern \<Rightarrow> faults \<Rightarrow> u32 list \<Rightarrow> u64 \<Rightarrow> notes_table \<Rightarrow> telemetry
     \<Rightarrow> (('h, 't) stored_note list, db_error) result \<times> telemetry" where
  "db_fetch_notes_by_tags x f tags cursor db tel =
     (let (timer, tel) = db_fetch_notes_timer tel;
          (eff, tel) = effective_cursor cursor tel
      in case i64_try_u64 eff of
           None \<Rightarrow> (Err (QueryExecution ''Cursor too large for SQLite''), drop_timer timer tel)
         | Some cursor_i64 \<Rightarrow>
             if tags = [] then (Ok [], drop_timer timer (finish timer ''ok'' tel))
             else
               let tag_values = map i64_of_u32 tags;
                   (res, _) = transact f ''fetch notes by tags''
                     (\<lambda>conn. res_bind
                        (run_stmt f 0 (Ok (sql_select_notes tag_values cursor_i64 FETCH_NOTES_BATCH_SIZE conn)))
                        (\<lambda>rows. Ok (rows, conn))) db
               in case res of
                    Err e \<Rightarrow> (Err e, drop_timer timer tel)
                  | Ok notes \<Rightarrow>
                      (case try_map (\<lambda>n. map_err
                               (\<lambda>e. Deserialization (''Failed to deserialize note: '' @ display_db_error e))
                               (stored_of_row x n)) notes of
                         Err e \<Rightarrow> (Err e, drop_timer timer tel)
                       | Ok stored \<Rightarrow> (Ok stored, drop_timer timer (finish timer ''ok'' tel))))"

definition db_fetch_notes ::
  "('h, 't) extern \<Rightarrow> faults \<Rightarrow> u32 \<Rightarrow> u64 \<Rightarrow> notes_table \<Rightarrow> telemetry
     \<Rightarrow> (('h, 't) stored_note list, db_error) result \<times> telemetry" where
  "db_fetch_notes x f tag cursor db tel = db_fetch_notes_by_tags x f [tag] cursor db tel"

text \<open>\<open>n.try_into().unwrap_or(0)\<close> from \<open>i64\<close> to \<open>u64\<close>, and from \<open>usize\<close> to \<open>i64\<close>.\<close>

definition u64_or_zero :: "i64 \<Rightarrow> u64" where
  "u64_or_zero n = (case u64_try_i64 n of Some m \<Rightarrow> m | None \<Rightarrow> 0)"

definition i64_or_zero :: "nat \<Rightarrow> i64" where
  "i64_or_zero n = (case i64_try_usize n of Some m \<Rightarrow> m | None \<Rightarrow> 0)"

definition db_get_stats :: "faults \<Rightarrow> notes_table \<Rightarrow> (u64 \<times> u64, db_error) result" where
  "db_get_stats f db =
     res_bind
       (query f ''get stats''
          (\<lambda>conn. res_bind (run_stmt f 0 (Ok (sql_count conn))) (\<lambda>total_notes.
                  res_bind (run_stmt f 1 (Ok (sql_count_distinct_tag conn))) (\<lambda>total_tags.
                  Ok (total_notes, total_tags)))) db)
       (\<lambda>(total_notes, total_tags). Ok (u64_or_zero total_notes, u64_or_zero total_tags))"

text \<open>
  \<open>cleanup_old_notes\<close> at the time \<open>now\<close>. The subtraction that computes the cutoff panics when
  the date leaves chrono's range; the call then has no result (\<open>None\<close>).
\<close>

definition db_cleanup_old_notes ::
  "('h, 't) extern \<Rightarrow> faults \<Rightarrow> 't \<Rightarrow> u32 \<Rightarrow> notes_table
     \<Rightarrow> ((u64, db_error) result \<times> notes_table) option" where
  "db_cleanup_old_notes x f now retention_days db =
     (case ts_minus_days x now (i64_of_u32 retention_days) of
        None \<Rightarrow> None
      | Some cutoff_date \<Rightarrow>
          let cutoff_timestamp = ts_micros x cutoff_date;
              (res, db) = transact f ''cleanup old notes''
                (\<lambda>conn. res_bind (run_stmt f 0 (Ok (sql_delete_older cutoff_timestamp conn)))
                   (\<lambda>(count, conn). Ok (i64_or_zero count, conn))) db
          in Some (case res of
               Err e \<Rightarrow> (Err e, db)
             | Ok deleted \<Rightarrow> (Ok (u64_or_zero deleted), db)))"

definition db_note_exists :: "faults \<Rightarrow> bytes \<Rightarrow> notes_table \<Rightarrow> (bool, db_error) result" where
  "db_note_exists f note_id db =
     res_bind
       (query f ''check note existence''
          (\<lambda>conn. run_stmt f 0 (Ok (sql_count_id note_id conn))) db)
       (\<lambda>count. Ok (0 < sint count))"

section \<open>Specifications of the methods\<close>

subsection \<open>The cursor\<close>

definition cursor_value :: "u64 \<Rightarrow> int" where
  "cursor_value c = (if LEGACY_CURSOR_THRESHOLD < c then 0 else uint c)"

lemma legacy_threshold_uint: "LEGACY_CURSOR_THRESHOLD < c \<longleftrightarrow> 1000000000000 < uint c"
  by (simp add: LEGACY_CURSOR_THRESHOLD_def word_less_def)

lemma effective_cursor_i64:
  "\<exists>k. i64_try_u64 (fst (effective_cursor c tel)) = Some k \<and> sint k = cursor_value c"
proof (cases "LEGACY_CURSOR_THRESHOLD < c")
  case True
  then show ?thesis
    by (simp add: effective_cursor_def cursor_value_def i64_try_u64_def)
next
  case False
  then have "uint c < 2 ^ 63"
    by (simp add: legacy_threshold_uint)
  then have "i64_try_u64 c = Some c" "sint c = uint c"
    by (simp_all add: i64_try_u64_Some_iff sint_eq_uint_small)
  with False show ?thesis
    by (simp add: effective_cursor_def cursor_value_def)
qed

lemma batch_size_nat: "nat (sint FETCH_NOTES_BATCH_SIZE) = 500"
  by (simp add: FETCH_NOTES_BATCH_SIZE_def)

subsection \<open>Fetching\<close>

text \<open>The rows one fetch answers with: the first 500 of the requested tags above the cursor.\<close>

definition query_page :: "u32 list \<Rightarrow> int \<Rightarrow> notes_table \<Rightarrow> note_row list" where
  "query_page tags c t =
     take 500 (filter (\<lambda>r. nr_tag r \<in> i64_of_u32 ` set tags \<and> c < row_key r) (tbl_rows t))"

lemma query_page_Nil [simp]: "query_page [] c t = []"
  by (simp add: query_page_def)

lemma query_page_set: "set ts = set us \<Longrightarrow> query_page ts c t = query_page us c t"
  by (simp add: query_page_def)

lemma query_page_in:
  "r \<in> set (query_page tags c t) \<Longrightarrow>
     r \<in> set (tbl_rows t) \<and> nr_tag r \<in> i64_of_u32 ` set tags \<and> c < row_key r"
  by (auto simp: query_page_def dest: in_set_takeD)

lemma query_page_length: "length (query_page tags c t) \<le> 500"
  by (simp add: query_page_def)

lemma query_page_sorted: "table_ok t \<Longrightarrow> sorted_wrt (<) (map row_key (query_page tags c t))"
  unfolding query_page_def by (intro sorted_wrt_map_take sorted_wrt_map_filter table_okD(1))

text \<open>What a successful fetch returns, on any faults; what it returns when nothing fails.\<close>

lemma select_is_query_page:
  assumes "table_ok t" and "sint k = c"
  shows "sql_select_notes (map i64_of_u32 tags) k FETCH_NOTES_BATCH_SIZE t = query_page tags c t"
  using assms by (simp add: sql_select_notes_ok query_page_def batch_size_nat)

definition fetch_conversion ::
  "('h, 't) extern \<Rightarrow> note_row list \<Rightarrow> (('h, 't) stored_note list, db_error) result" where
  "fetch_conversion x rows =
     try_map (\<lambda>n. map_err
        (\<lambda>e. Deserialization (''Failed to deserialize note: '' @ display_db_error e))
        (stored_of_row x n)) rows"

lemma fetch_conversion_Ok_iff:
  "fetch_conversion x rows = Ok ns \<longleftrightarrow> list_all2 (\<lambda>r n. stored_of_row x r = Ok n) rows ns"
  by (simp add: fetch_conversion_def try_map_Ok_list_all2)

lemma db_fetch_notes_by_tags_OkD:
  assumes "table_ok t" and "db_fetch_notes_by_tags x f tags c t tel = (Ok ns, tel')"
  shows "fetch_conversion x (query_page tags (cursor_value c) t) = Ok ns"
proof -
  obtain timer tel1 where t1: "db_fetch_notes_timer tel = (timer, tel1)"
    by fastforce
  obtain eff tel2 where t2: "effective_cursor c tel1 = (eff, tel2)"
    by fastforce
  obtain k where k: "i64_try_u64 eff = Some k" "sint k = cursor_value c"
    using effective_cursor_i64 [of c tel1] t2 by auto
  show ?thesis
  proof (cases "tags = []")
    case True
    with assms(2) t1 t2 k show ?thesis
      by (simp add: db_fetch_notes_by_tags_def fetch_conversion_def)
  next
    case False
    with assms(2) t1 t2 k show ?thesis
      by (auto simp: db_fetch_notes_by_tags_def select_is_query_page [OF assms(1) k(2)]
            fetch_conversion_def res_bind_Ok_iff
          split: prod.splits result.splits dest!: transact_OkD run_stmt_OkD)
  qed
qed

lemma db_fetch_notes_by_tags_no_faults:
  assumes "table_ok t"
  shows "fst (db_fetch_notes_by_tags x no_faults tags c t tel) =
    fetch_conversion x (query_page tags (cursor_value c) t)"
proof -
  obtain timer tel1 where t1: "db_fetch_notes_timer tel = (timer, tel1)"
    by fastforce
  obtain eff tel2 where t2: "effective_cursor c tel1 = (eff, tel2)"
    by fastforce
  obtain k where k: "i64_try_u64 eff = Some k" "sint k = cursor_value c"
    using effective_cursor_i64 [of c tel1] t2 by auto
  show ?thesis
    using t1 t2 k
    by (auto simp: db_fetch_notes_by_tags_def select_is_query_page [OF assms(1) k(2)]
          fetch_conversion_def split: result.splits)
qed

subsection \<open>The state the node keeps: a well-formed table of written rows\<close>

definition db_ok :: "('h, 't) extern \<Rightarrow> notes_table \<Rightarrow> bool" where
  "db_ok x t \<longleftrightarrow> table_ok t \<and> (\<forall>r \<in> set (tbl_rows t). well_formed_row x r)"

lemma db_ok_table [simp]: "db_ok x t \<Longrightarrow> table_ok t"
  by (simp add: db_ok_def)

lemma db_ok_empty [simp, intro]: "db_ok x empty_table"
  by (simp add: db_ok_def) (simp add: empty_table_def)

lemma fetch_conversion_well_formed:
  assumes "codec_ok x" "clock_ok x" and "\<And>r. r \<in> set rows \<Longrightarrow> well_formed_row x r"
  shows "\<exists>ns. fetch_conversion x rows = Ok ns \<and>
    map (transport_of_stored x) ns = map row_transport rows \<and> map sn_seq ns = map nr_seq rows"
  using assms(3)
proof (induction rows)
  case Nil
  then show ?case by (simp add: fetch_conversion_def)
next
  case (Cons r rows)
  obtain ns where ns: "fetch_conversion x rows = Ok ns"
      "map (transport_of_stored x) ns = map row_transport rows" "map sn_seq ns = map nr_seq rows"
    using Cons by auto
  obtain s where s: "stored_of_row x r = Ok s"
    using well_formed_row_Ok [OF assms(1,2)] Cons.prems by fastforce
  have "transport_of_stored x s = row_transport r" "sn_seq s = nr_seq r"
    using transport_of_well_formed [OF assms(1) _ s] stored_of_row_OkD(1) [OF s] Cons.prems by auto
  moreover have "fetch_conversion x (r # rows) = Ok (s # ns)"
    using ns(1) s by (simp add: fetch_conversion_def)
  ultimately show ?case
    using ns by (intro exI [of _ "s # ns"]) simp
qed

lemma fetch_conversion_transport:
  assumes "codec_ok x" and "\<And>r. r \<in> set rows \<Longrightarrow> well_formed_row x r"
    and "fetch_conversion x rows = Ok ns"
  shows "map (transport_of_stored x) ns = map row_transport rows" "map sn_seq ns = map nr_seq rows"
proof -
  have l: "list_all2 (\<lambda>r n. stored_of_row x r = Ok n) rows ns"
    using assms(3) by (simp add: fetch_conversion_Ok_iff)
  show "map (transport_of_stored x) ns = map row_transport rows" "map sn_seq ns = map nr_seq rows"
    using l assms(2)
    by (induction rule: list_all2_induct)
      (auto intro: transport_of_well_formed [OF assms(1)] dest: stored_of_row_OkD(1))
qed

subsection \<open>Storing\<close>

lemma db_store_note_OkD:
  assumes "db_store_note x f n t tel = (Ok (), t', tel')"
  shows "sql_insert (new_note_of_stored x n) t = Ok t'"
  using assms
  by (auto simp: db_store_note_def Let_def res_bind_Ok_iff split: prod.splits result.splits
      dest!: transact_OkD run_stmt_OkD)

lemma db_store_note_ErrD:
  "db_store_note x f n t tel = (Err e, t', tel') \<Longrightarrow> t' = t"
  by (auto simp: db_store_note_def Let_def split: prod.splits result.splits dest!: transact_ErrD)

lemma db_store_note_no_faults:
  "fst (db_store_note x no_faults n t tel) =
     (case sql_insert (new_note_of_stored x n) t of
        Ok _ \<Rightarrow> Ok () | Err e \<Rightarrow> Err (db_error_of_diesel e))"
  by (auto simp: db_store_note_def Let_def split: prod.splits result.splits)

lemma db_store_note_ok:
  assumes "db_ok x t"
  shows "db_ok x (fst (snd (db_store_note x f n t tel)))"
proof (cases "db_store_note x f n t tel")
  case (fields r t' tel')
  show ?thesis
  proof (cases r)
    case (Ok u)
    then have i: "sql_insert (new_note_of_stored x n) t = Ok t'"
      using db_store_note_OkD fields by (metis (full_types) old.unit.exhaust)
    obtain s where "tbl_rows t' = tbl_rows t @ [row_of_new s (new_note_of_stored x n)]"
      using sql_insert_OkD [OF db_ok_table [OF assms] i] by metis
    then show ?thesis
      using assms sql_insert_ok [OF _ i] fields by (auto simp: db_ok_def)
  next
    case (Err e)
    then show ?thesis
      using assms db_store_note_ErrD fields by fastforce
  qed
qed

subsection \<open>Cleaning up\<close>

lemma u64_or_zero_nonneg: "0 \<le> sint n \<Longrightarrow> u64_or_zero n = n"
  by (simp add: u64_or_zero_def u64_try_i64_def)

lemma i64_or_zero_small: "n < 2 ^ 63 \<Longrightarrow> sint (i64_or_zero n) = int n"
  by (simp add: i64_or_zero_def i64_try_usize_Some sint_of_nat_i64)

lemma uint_count: "n < 2 ^ 63 \<Longrightarrow> uint (u64_or_zero (i64_or_zero n)) = int n"
  by (simp add: u64_or_zero_nonneg i64_or_zero_small uint_eq_sint_nonneg)

lemma db_cleanup_OkD:
  assumes "db_cleanup_old_notes x f now days t = Some (Ok k, t')"
  obtains cutoff where "ts_minus_days x now (i64_of_u32 days) = Some cutoff"
    "t' = snd (sql_delete_older (ts_micros x cutoff) t)"
    "k = u64_or_zero (i64_or_zero (fst (sql_delete_older (ts_micros x cutoff) t)))"
  using assms
  by (auto simp: db_cleanup_old_notes_def Let_def res_bind_Ok_iff
      split: option.splits prod.splits result.splits dest!: transact_OkD run_stmt_OkD)

lemma db_cleanup_ErrD:
  "db_cleanup_old_notes x f now days t = Some (Err e, t') \<Longrightarrow> t' = t"
  by (auto simp: db_cleanup_old_notes_def Let_def
      split: option.splits prod.splits result.splits dest!: transact_ErrD)

lemma db_cleanup_ok:
  assumes "db_ok x t" and "db_cleanup_old_notes x f now days t = Some (r, t')"
  shows "db_ok x t'"
proof (cases r)
  case (Ok k)
  then obtain cutoff where "t' = snd (sql_delete_older cutoff t)"
    using assms(2) db_cleanup_OkD by metis
  then show ?thesis
    using assms(1) sql_delete_older_ok by (auto simp: db_ok_def)
next
  case (Err e)
  then show ?thesis
    using assms db_cleanup_ErrD by metis
qed

subsection \<open>Statistics and existence\<close>

lemma db_get_stats_OkD:
  assumes "db_get_stats f t = Ok (n, k)"
  shows "n = u64_or_zero (sql_count t)" "k = u64_or_zero (sql_count_distinct_tag t)"
  using assms
  by (auto simp: db_get_stats_def res_bind_Ok_iff dest!: query_OkD run_stmt_OkD)

lemma sql_count_values:
  assumes "table_ok t"
  shows "uint (u64_or_zero (sql_count t)) = int (length (tbl_rows t))"
    "uint (u64_or_zero (sql_count_distinct_tag t)) = int (card (nr_tag ` set (tbl_rows t)))"
proof -
  have b: "length (tbl_rows t) < 2 ^ 63"
    using assms by (rule table_ok_length_bound)
  then have "length (remdups (map nr_tag (tbl_rows t))) < 2 ^ 63"
    using length_remdups_leq [of "map nr_tag (tbl_rows t)"] by simp
  with b show "uint (u64_or_zero (sql_count t)) = int (length (tbl_rows t))"
    "uint (u64_or_zero (sql_count_distinct_tag t)) = int (card (nr_tag ` set (tbl_rows t)))"
    by (simp_all add: sql_count_def sql_count_distinct_tag_def u64_or_zero_nonneg
        uint_eq_sint_nonneg sint_of_nat_i64 length_remdups_card_conv)
qed

lemma db_note_exists_OkD:
  assumes "table_ok t" and "db_note_exists f i t = Ok b"
  shows "b \<longleftrightarrow> i \<in> nr_id ` set (tbl_rows t)"
  using assms sql_count_id_pos [OF table_ok_length_bound [OF assms(1)], of i]
  by (auto simp: db_note_exists_def res_bind_Ok_iff dest!: query_OkD run_stmt_OkD)

subsection \<open>Telemetry\<close>

lemma store_note_duration_records:
  assumes "db_store_note x f n t tel = (Ok (), t', tel')"
  shows "duration_records DbStoreNoteDuration (tel_events tel') =
    duration_records DbStoreNoteDuration (tel_events tel) @ [''ok'', ''dropped'']"
  using assms
  by (auto simp: db_store_note_def timer_defs Let_def split: prod.splits result.splits)

end
