(* ===== verification/Grpc.thy ===== *)
theory Grpc
  imports SqliteDb
begin

text \<open>
  The request handlers of the gRPC server (crates/node/src/node/grpc/mod.rs): \<open>send_note\<close>,
  \<open>fetch_notes\<close> and \<open>stats\<close>, each with its guards in the order of the code, the database call
  and the telemetry it writes. \<open>stream_notes\<close> belongs to theory \<open>Streamer\<close>. The HTTP stack of
  \<open>serve\<close> (tonic, tower) is not modelled.
\<close>

section \<open>Configuration\<close>

record grpc_server_config =
  gc_host :: string
  gc_port :: u16
  gc_max_note_size :: nat
  gc_max_connections :: nat
  gc_request_timeout :: nat

definition grpc_config_default :: grpc_server_config where
  "grpc_config_default =
     \<lparr>gc_host = ''127.0.0.1'', gc_port = 57292, gc_max_note_size = 512000,
      gc_max_connections = 4096, gc_request_timeout = 4\<rparr>"

definition MAX_TAGS_PER_FETCH_REQUEST :: nat where
  "MAX_TAGS_PER_FETCH_REQUEST = 128"

section \<open>\<open>send_note\<close>\<close>

text \<open>\<open>now\<close> is what \<open>Utc::now()\<close> returns during the call.\<close>

definition send_note ::
  "('h, 't) extern \<Rightarrow> grpc_server_config \<Rightarrow> faults \<Rightarrow> 't \<Rightarrow> send_note_request
     \<Rightarrow> notes_table \<Rightarrow> telemetry \<Rightarrow> (send_note_response, status) result \<times> notes_table \<times> telemetry" where
  "send_note x cfg f now request db tel =
     (case snr_note request of
        None \<Rightarrow> (Err (invalid_argument ''Missing note''), db, tel)
      | Some pnote \<Rightarrow>
          let note_size = payload_size pnote;
              (timer, tel) = grpc_send_note_request (of_nat note_size) tel
          in if gc_max_note_size cfg < note_size
             then (Err (resource_exhausted (''Note too large ('' @ show_nat note_size @ '')'')),
                   db, drop_timer timer tel)
             else case hdr_read x (tn_header pnote) of
                    Err e \<Rightarrow> (Err (invalid_argument (''Invalid header: '' @ de_debug e)),
                              db, drop_timer timer tel)
                  | Ok header \<Rightarrow>
                      let note_for_db =
                            \<lparr>sn_header = header, sn_details = tn_details pnote, sn_created_at = now,
                             sn_seq = 0, sn_after_block_num = tn_after_block_num pnote\<rparr>;
                          (res, db, tel) = db_store_note x f note_for_db db tel
                      in case res of
                           Err e \<Rightarrow> (Err (internal (''Failed to store note: '' @ debug_db_error e)),
                                     db, drop_timer timer tel)
                         | Ok _ \<Rightarrow> (Ok SendNoteResponse, db,
                                    drop_timer timer (finish timer ''ok'' tel)))"

section \<open>\<open>fetch_notes\<close>\<close>

text \<open>
  \<open>for stored_note in &stored_notes { rcursor = rcursor.max(u64::try_from(seq)?) }\<close>.
\<close>

fun advance_cursor :: "u64 \<Rightarrow> i64 list \<Rightarrow> (u64, status) result" where
  "advance_cursor rcursor [] = Ok rcursor"
| "advance_cursor rcursor (s # seqs) =
     (case u64_try_i64 s of
        None \<Rightarrow> Err (internal ''Negative seq in stored note'')
      | Some seq_cursor \<Rightarrow> advance_cursor (max rcursor seq_cursor) seqs)"

definition fetch_notes ::
  "('h, 't) extern \<Rightarrow> faults \<Rightarrow> fetch_notes_request \<Rightarrow> notes_table \<Rightarrow> telemetry
     \<Rightarrow> (fetch_notes_response, status) result \<times> telemetry" where
  "fetch_notes x f request db tel =
     (let (timer, tel) = grpc_fetch_notes_request tel in
      if MAX_TAGS_PER_FETCH_REQUEST < length (fnr_tags request)
      then (Err (invalid_argument (''Too many tags in fetch_notes request: '' @
                   show_nat (length (fnr_tags request)) @ '' (max '' @
                   show_nat MAX_TAGS_PER_FETCH_REQUEST @ '')'')),
            drop_timer timer tel)
      else
        let tags = sorted_list_of_set (set (fnr_tags request));
            cursor = fnr_cursor request;
            (res, tel) = db_fetch_notes_by_tags x f tags cursor db tel
        in case res of
             Err e \<Rightarrow> (Err (internal (''Failed to fetch notes: '' @ debug_db_error e)),
                       drop_timer timer tel)
           | Ok stored_notes \<Rightarrow>
               (case advance_cursor cursor (map sn_seq stored_notes) of
                  Err s \<Rightarrow> (Err s, drop_timer timer tel)
                | Ok rcursor \<Rightarrow>
                    let proto_notes = map (transport_of_stored x) stored_notes;
                        tel = finish timer ''ok'' tel;
                        tel = grpc_fetch_notes_response (of_nat (length proto_notes))
                                (sum_list (map (\<lambda>n. of_nat (payload_size n)) proto_notes)) tel
                    in (Ok \<lparr>fnp_notes = proto_notes, fnp_cursor = rcursor\<rparr>, drop_timer timer tel)))"

section \<open>\<open>stats\<close>\<close>

text \<open>\<open>env!("CARGO_PKG_VERSION")\<close>: the workspace version of the root Cargo.toml.\<close>

definition CARGO_PKG_VERSION :: string where
  "CARGO_PKG_VERSION = ''0.5.0-rc.2''"

definition stats :: "faults \<Rightarrow> notes_table \<Rightarrow> (stats_response, status) result" where
  "stats f db =
     (case db_get_stats f db of
        Err e \<Rightarrow> Err (internal (''Failed to get stats: '' @ debug_db_error e))
      | Ok (total_notes, total_tags) \<Rightarrow>
          Ok \<lparr>sts_total_notes = total_notes, sts_total_tags = total_tags,
              sts_notes_per_tag = [], sts_version = CARGO_PKG_VERSION\<rparr>)"

section \<open>What the handlers promise\<close>

subsection \<open>Sending\<close>

text \<open>The note a request asks to store, when it passes the guards.\<close>

definition accepted_note ::
  "('h, 't) extern \<Rightarrow> grpc_server_config \<Rightarrow> 't \<Rightarrow> send_note_request \<Rightarrow> ('h, 't) stored_note option" where
  "accepted_note x cfg now request =
     (case snr_note request of
        None \<Rightarrow> None
      | Some p \<Rightarrow>
          if gc_max_note_size cfg < payload_size p then None
          else (case hdr_read x (tn_header p) of
                  Err e \<Rightarrow> None
                | Ok h \<Rightarrow> Some \<lparr>sn_header = h, sn_details = tn_details p, sn_created_at = now,
                              sn_seq = 0, sn_after_block_num = tn_after_block_num p\<rparr>))"

lemma send_note_OkD:
  assumes "send_note x cfg f now req t tel = (Ok a, t', tel')"
  obtains n where "accepted_note x cfg now req = Some n"
    "sql_insert (new_note_of_stored x n) t = Ok t'"
  using assms
  by (fastforce simp: send_note_def accepted_note_def Let_def
      split: option.splits prod.splits if_splits result.splits
      dest!: db_store_note_OkD)

lemma send_note_ErrD:
  "send_note x cfg f now req t tel = (Err e, t', tel') \<Longrightarrow> t' = t"
  by (fastforce simp: send_note_def Let_def
      split: option.splits prod.splits if_splits result.splits dest!: db_store_note_ErrD)

lemma send_note_ok:
  assumes "db_ok x t"
  shows "db_ok x (fst (snd (send_note x cfg f now req t tel)))"
proof (cases "send_note x cfg f now req t tel")
  case (fields r t' tel')
  show ?thesis
  proof (cases r)
    case (Ok a)
    then obtain n where i: "sql_insert (new_note_of_stored x n) t = Ok t'"
      using fields send_note_OkD by metis
    obtain s where "tbl_rows t' = tbl_rows t @ [row_of_new s (new_note_of_stored x n)]"
      using sql_insert_OkD [OF db_ok_table [OF assms] i] by metis
    then show ?thesis
      using assms sql_insert_ok [OF _ i] fields by (auto simp: db_ok_def)
  next
    case (Err e)
    then show ?thesis
      using assms fields send_note_ErrD by fastforce
  qed
qed

lemma db_store_note_no_faults_cases:
  obtains (stored) t' tel' where "sql_insert (new_note_of_stored x n) t = Ok t'"
      "db_store_note x no_faults n t tel = (Ok (), t', tel')"
  | (refused) e tel' where "sql_insert (new_note_of_stored x n) t = Err e"
      "db_store_note x no_faults n t tel = (Err (db_error_of_diesel e), t, tel')"
proof (cases "sql_insert (new_note_of_stored x n) t")
  case (Ok t')
  then have "fst (db_store_note x no_faults n t tel) = Ok ()"
    by (simp add: db_store_note_no_faults)
  then obtain t2 tel' where d: "db_store_note x no_faults n t tel = (Ok (), t2, tel')"
    by (metis eq_fst_iff surj_pair)
  with Ok db_store_note_OkD [OF d] stored show ?thesis by simp
next
  case (Err e)
  then have "fst (db_store_note x no_faults n t tel) = Err (db_error_of_diesel e)"
    by (simp add: db_store_note_no_faults)
  then obtain t2 tel' where d:
      "db_store_note x no_faults n t tel = (Err (db_error_of_diesel e), t2, tel')"
    by (metis eq_fst_iff surj_pair)
  with Err db_store_note_ErrD [OF d] refused show ?thesis by simp
qed

lemma accepted_noteD:
  assumes "accepted_note x cfg now req = Some n"
  obtains p h where "snr_note req = Some p" "payload_size p \<le> gc_max_note_size cfg"
    "hdr_read x (tn_header p) = Ok h"
    "n = \<lparr>sn_header = h, sn_details = tn_details p, sn_created_at = now, sn_seq = 0,
          sn_after_block_num = tn_after_block_num p\<rparr>"
  using assms by (auto simp: accepted_note_def split: option.splits if_splits result.splits)

lemma send_note_no_faults_accepted:
  assumes "accepted_note x cfg now req = Some n"
  shows "fst (send_note x cfg no_faults now req t tel) =
    (case sql_insert (new_note_of_stored x n) t of
       Ok _ \<Rightarrow> Ok SendNoteResponse
     | Err e \<Rightarrow> Err (internal (''Failed to store note: '' @ debug_db_error (db_error_of_diesel e))))"
proof -
  obtain p h where p: "snr_note req = Some p" "payload_size p \<le> gc_max_note_size cfg"
      "hdr_read x (tn_header p) = Ok h"
    and n: "n = \<lparr>sn_header = h, sn_details = tn_details p, sn_created_at = now, sn_seq = 0,
          sn_after_block_num = tn_after_block_num p\<rparr>"
    using assms by (rule accepted_noteD)
  obtain timer tel1 where t1: "grpc_send_note_request (of_nat (payload_size p)) tel = (timer, tel1)"
    by fastforce
  show ?thesis
  proof (cases rule: db_store_note_no_faults_cases [of x n t tel1])
    case (stored t' tel')
    then show ?thesis
      using p t1 by (simp add: send_note_def Let_def flip: n)
  next
    case (refused e tel')
    then show ?thesis
      using p t1 by (simp add: send_note_def Let_def flip: n)
  qed
qed

subsection \<open>Fetching\<close>

text \<open>The cursor after a page: the largest \<open>seq\<close> of the page, and never below the old one.\<close>

definition page_end :: "int \<Rightarrow> note_row list \<Rightarrow> int" where
  "page_end c rows = fold (\<lambda>r m. max m (row_key r)) rows c"

lemma page_end_Nil [simp]: "page_end c [] = c"
  by (simp add: page_end_def)

lemma page_end_Cons [simp]: "page_end c (r # rows) = page_end (max c (row_key r)) rows"
  by (simp add: page_end_def)

lemma page_end_ge: "c \<le> page_end c rows"
proof (induction rows arbitrary: c)
  case Nil
  then show ?case by simp
next
  case (Cons r rows)
  from Cons.IH [of "max c (row_key r)"] show ?case by simp
qed

lemma page_end_ge_row: "r \<in> set rows \<Longrightarrow> row_key r \<le> page_end c rows"
proof (induction rows arbitrary: c)
  case Nil
  then show ?case by simp
next
  case (Cons s rows)
  then show ?case
    using page_end_ge [of "max c (row_key s)" rows] by auto
qed

lemma page_end_in: "page_end c rows = c \<or> (\<exists>r \<in> set rows. page_end c rows = row_key r)"
proof (induction rows arbitrary: c)
  case Nil
  then show ?case by simp
next
  case (Cons s rows)
  show ?case
    using Cons.IH [of "max c (row_key s)"] by (auto simp: max_def split: if_splits)
qed

lemma page_end_foldr: "page_end c rows = foldr max (map row_key rows) c"
proof (induction rows arbitrary: c)
  case Nil
  then show ?case by simp
next
  case (Cons r rows)
  have "foldr max ks (max c k) = max k (foldr max ks c)" for ks :: "int list" and k
    by (induction ks) (auto simp: ac_simps)
  with Cons show ?case by simp
qed

lemma page_end_le: "c \<le> m \<Longrightarrow> (\<And>r. r \<in> set rows \<Longrightarrow> row_key r \<le> m) \<Longrightarrow> page_end c rows \<le> m"
  using page_end_in [of c rows] by auto

lemma advance_cursor_page:
  assumes "map sn_seq ns = map nr_seq rows" and "\<And>r. r \<in> set rows \<Longrightarrow> 0 \<le> row_key r"
  shows "\<exists>d. advance_cursor c (map sn_seq ns) = Ok d \<and> uint d = page_end (uint c) rows"
  unfolding assms(1) using assms(2)
proof (induction rows arbitrary: c)
  case Nil
  then show ?case by simp
next
  case (Cons r rows)
  have u: "u64_try_i64 (nr_seq r) = Some (nr_seq r)" "uint (nr_seq r) = row_key r"
    using Cons.prems [of r] by (simp_all add: u64_try_i64_Some_iff uint_eq_sint_nonneg)
  have "uint (max c (nr_seq r)) = max (uint c) (row_key r)"
    using u(2) by (simp add: max_def word_le_def)
  then show ?case
    using Cons.IH [of "max c (nr_seq r)"] Cons.prems u(1) by simp
qed

lemma fetch_tags_set: "set (sorted_list_of_set (set ts)) = set (ts :: u32 list)"
  by simp

text \<open>A successful fetch, whatever the environment did to it.\<close>

lemma fetch_notes_OkD:
  assumes "db_ok x t" "codec_ok x" and "fetch_notes x f req t tel = (Ok resp, tel')"
  shows "length (fnr_tags req) \<le> 128"
    and "fnp_notes resp = map row_transport (query_page (fnr_tags req) (cursor_value (fnr_cursor req)) t)"
    and "uint (fnp_cursor resp) =
      page_end (uint (fnr_cursor req)) (query_page (fnr_tags req) (cursor_value (fnr_cursor req)) t)"
proof -
  let ?tags = "sorted_list_of_set (set (fnr_tags req))"
  let ?page = "query_page (fnr_tags req) (cursor_value (fnr_cursor req)) t"
  have ps: "query_page ?tags (cursor_value (fnr_cursor req)) t = ?page"
    by (rule query_page_set) simp
  obtain ns tel1 tel2 rc where d:
      "db_fetch_notes_by_tags x f ?tags (fnr_cursor req) t tel1 = (Ok ns, tel2)"
      "advance_cursor (fnr_cursor req) (map sn_seq ns) = Ok rc"
      "resp = \<lparr>fnp_notes = map (transport_of_stored x) ns, fnp_cursor = rc\<rparr>"
    and len: "length (fnr_tags req) \<le> 128"
    using assms(3)
    by (auto simp: fetch_notes_def Let_def MAX_TAGS_PER_FETCH_REQUEST_def
        split: prod.splits if_splits result.splits)
  have c: "fetch_conversion x ?page = Ok ns"
    using db_fetch_notes_by_tags_OkD [OF db_ok_table [OF assms(1)] d(1)] ps by simp
  have w: "well_formed_row x r" if "r \<in> set ?page" for r
    using query_page_in [OF that] assms(1) by (auto simp: db_ok_def)
  have m: "map (transport_of_stored x) ns = map row_transport ?page" "map sn_seq ns = map nr_seq ?page"
    using fetch_conversion_transport [OF assms(2) w c] by auto
  have p: "0 \<le> row_key r" if "r \<in> set ?page" for r
    using query_page_in [OF that] table_okD(2) [OF db_ok_table [OF assms(1)], of r] by auto
  show "length (fnr_tags req) \<le> 128" by (rule len)
  show "fnp_notes resp = map row_transport ?page"
    using d(3) m(1) by simp
  show "uint (fnp_cursor resp) = page_end (uint (fnr_cursor req)) ?page"
    using advance_cursor_page [OF m(2) p, of "fnr_cursor req"] d(2,3) by auto
qed

text \<open>Without faults a fetch of at most 128 tags succeeds.\<close>

lemma fetch_notes_no_faults_Ok:
  assumes "db_ok x t" "codec_ok x" "clock_ok x" and "length (fnr_tags req) \<le> 128"
  shows "\<exists>resp tel'. fetch_notes x no_faults req t tel = (Ok resp, tel')"
proof -
  let ?tags = "sorted_list_of_set (set (fnr_tags req))"
  let ?page = "query_page ?tags (cursor_value (fnr_cursor req)) t"
  have w: "well_formed_row x r" if "r \<in> set ?page" for r
    using query_page_in [OF that] assms(1) by (auto simp: db_ok_def)
  obtain ns where ns: "fetch_conversion x ?page = Ok ns" "map sn_seq ns = map nr_seq ?page"
    using fetch_conversion_well_formed [OF assms(2,3) w] by blast
  have p: "0 \<le> row_key r" if "r \<in> set ?page" for r
    using query_page_in [OF that] table_okD(2) [OF db_ok_table [OF assms(1)], of r] by auto
  obtain rc where rc: "advance_cursor (fnr_cursor req) (map sn_seq ns) = Ok rc"
    using advance_cursor_page [OF ns(2) p] by blast
  have d: "fst (db_fetch_notes_by_tags x no_faults ?tags (fnr_cursor req) t tel1) = Ok ns" for tel1
    unfolding db_fetch_notes_by_tags_no_faults [OF db_ok_table [OF assms(1)]] by (rule ns(1))
  show ?thesis
  proof (cases "grpc_fetch_notes_request tel")
    case (Pair timer tel1)
    obtain tel2 where
      "db_fetch_notes_by_tags x no_faults ?tags (fnr_cursor req) t tel1 = (Ok ns, tel2)"
      using d [of tel1] by (metis fst_conv surj_pair)
    then show ?thesis
      using assms(4) rc Pair
      by (simp add: fetch_notes_def Let_def MAX_TAGS_PER_FETCH_REQUEST_def)
  qed
qed

end
