(* ===== verification/CursorLog.thy ===== *)
theory CursorLog
  imports Prelude
begin

text \<open>
  The contract between a store that hands out increasing keys and a reader that keeps a cursor:
  what the pull client of \<open>fetch_notes\<close> and the streamer's query loop both rest on. The provider
  keeps its items in key order, never reuses a key, and answers a read at a cursor with the
  first items above it; the client repeats reads and moves its cursor to the end of each page.
  The lemmas say what the client has received after any interleaving with the store's writers.
\<close>

section \<open>The client: repeated reads, interleaved with the store's own steps\<close>

inductive cursor_run ::
  "('db \<Rightarrow> 'db \<Rightarrow> bool) \<Rightarrow> ('db \<Rightarrow> int \<Rightarrow> 'i list) \<Rightarrow> (int \<Rightarrow> 'i list \<Rightarrow> int) \<Rightarrow> 'db \<Rightarrow> int
     \<Rightarrow> 'db \<Rightarrow> int \<Rightarrow> 'i list \<Rightarrow> bool"
  for env page nxt db0 c0 where
  start: "cursor_run env page nxt db0 c0 db0 c0 []"
| other: "cursor_run env page nxt db0 c0 db c got \<Longrightarrow> env db db' \<Longrightarrow>
     cursor_run env page nxt db0 c0 db' c got"
| read: "cursor_run env page nxt db0 c0 db c got \<Longrightarrow>
     cursor_run env page nxt db0 c0 db (nxt c (page db c)) (got @ page db c)"

text \<open>\<open>n\<close> reads in a row of an unchanging store: the last cursor and everything received.\<close>

fun drain :: "('db \<Rightarrow> int \<Rightarrow> 'i list) \<Rightarrow> (int \<Rightarrow> 'i list \<Rightarrow> int) \<Rightarrow> 'db \<Rightarrow> nat \<Rightarrow> int \<Rightarrow> int \<times> 'i list" where
  "drain page nxt db 0 c = (c, [])"
| "drain page nxt db (Suc n) c =
     (let p = page db c; (c', rest) = drain page nxt db n (nxt c p) in (c', p @ rest))"

section \<open>The contract\<close>

locale cursor_log =
  fixes invar :: "'db \<Rightarrow> bool"
    and items :: "'db \<Rightarrow> 'i list"
    and key :: "'i \<Rightarrow> int"
    and high :: "'db \<Rightarrow> int"
    and env :: "'db \<Rightarrow> 'db \<Rightarrow> bool"
    and sel :: "'i \<Rightarrow> bool"
    and page :: "'db \<Rightarrow> int \<Rightarrow> 'i list"
    and nxt :: "int \<Rightarrow> 'i list \<Rightarrow> int"
    and lim :: int
    and batch :: nat
  assumes items_sorted: "invar db \<Longrightarrow> sorted_wrt (<) (map key (items db))"
    and items_high: "invar db \<Longrightarrow> i \<in> set (items db) \<Longrightarrow> key i \<le> high db"
    and env_invar: "invar db \<Longrightarrow> env db db' \<Longrightarrow> invar db'"
    and env_high: "invar db \<Longrightarrow> env db db' \<Longrightarrow> high db \<le> high db'"
    and env_old: "invar db \<Longrightarrow> env db db' \<Longrightarrow> i \<in> set (items db') \<Longrightarrow> key i \<le> high db \<Longrightarrow>
      i \<in> set (items db)"
    and page_eq: "invar db \<Longrightarrow> c \<le> lim \<Longrightarrow>
      page db c = take batch (filter (\<lambda>i. sel i \<and> c < key i) (items db))"
    and page_items: "invar db \<Longrightarrow> set (page db c) \<subseteq> set (items db)"
    and nxt_ge: "c \<le> nxt c p"
    and nxt_item: "i \<in> set p \<Longrightarrow> key i \<le> nxt c p"
    and nxt_in: "nxt c p = c \<or> (\<exists>i \<in> set p. nxt c p = key i)"
    and batch_pos: "0 < batch"
begin

lemma run_invar: "cursor_run env page nxt db0 c0 db c got \<Longrightarrow> invar db0 \<Longrightarrow> invar db"
  by (induction rule: cursor_run.induct) (auto intro: env_invar)

lemma run_mono: "cursor_run env page nxt db0 c0 db c got \<Longrightarrow> c0 \<le> c"
  by (induction rule: cursor_run.induct) (auto intro: order_trans nxt_ge)

lemma run_below_high:
  assumes "cursor_run env page nxt db0 c0 db c got" and "invar db0" and "c0 \<le> high db0"
  shows "c \<le> high db"
  using assms
proof (induction rule: cursor_run.induct)
  case start
  then show ?case by simp
next
  case (other db c got db')
  then show ?case
    using env_high run_invar by (meson order_trans)
next
  case (read db c got)
  have inv: "invar db"
    using run_invar read by blast
  show ?case
    using nxt_in [of c "page db c"] read page_items [OF inv, of c] items_high [OF inv] by auto
qed

text \<open>One read below the limit: it returns, in order, exactly what lies between the cursors.\<close>

lemma nxt_between:
  assumes "invar db" "c \<le> lim" "i \<in> set (items db)" "sel i" "c < key i" "key i \<le> nxt c (page db c)"
  shows "i \<in> set (page db c)"
proof -
  let ?F = "filter (\<lambda>i. sel i \<and> c < key i) (items db)"
  have p: "page db c = take batch ?F"
    by (rule page_eq) (use assms in auto)
  have s: "sorted_wrt (<) (map key ?F)"
    by (rule sorted_wrt_map_filter) (rule items_sorted [OF assms(1)])
  obtain j where j: "j \<in> set (page db c)" "key i \<le> key j"
    using nxt_in [of c "page db c"] assms(5,6) by auto
  have iF: "i \<in> set ?F"
    using assms(3-5) by simp
  show ?thesis
    unfolding p by (rule filter_le_take_strict [OF s _ iF j(2)]) (use j(1) p in simp)
qed

lemma page_props:
  assumes "invar db" "c \<le> lim"
  shows "sorted_wrt (<) (map key (page db c))"
    and "i \<in> set (page db c) \<Longrightarrow> sel i \<and> c < key i \<and> i \<in> set (items db)"
  unfolding page_eq [OF assms]
  by (auto intro: sorted_wrt_map_take sorted_wrt_map_filter items_sorted [OF assms(1)] dest: in_set_takeD)

text \<open>Nothing is delivered twice, and delivery follows the key order.\<close>

lemma run_sorted:
  assumes "cursor_run env page nxt db0 c0 db c got" and "invar db0" and "c \<le> lim"
  shows "sorted_wrt (<) (map key got) \<and> (\<forall>i \<in> set got. sel i \<and> c0 < key i \<and> key i \<le> c)"
  using assms
proof (induction rule: cursor_run.induct)
  case start
  then show ?case by simp
next
  case (other db c got db')
  then show ?case by simp
next
  case (read db c got)
  have inv: "invar db"
    using run_invar read by blast
  have c: "c \<le> lim"
    using nxt_ge [of c "page db c"] read.prems(2) by simp
  have IH: "sorted_wrt (<) (map key got)" "\<And>i. i \<in> set got \<Longrightarrow> sel i \<and> c0 < key i \<and> key i \<le> c"
    using read.IH [OF read.prems(1) c] by auto
  have P: "sorted_wrt (<) (map key (page db c))" "\<And>i. i \<in> set (page db c) \<Longrightarrow> sel i \<and> c < key i"
    using page_props [OF inv c] by auto
  have "c0 \<le> c"
    using run_mono read.hyps by blast
  then show ?case
    using IH P nxt_item [of _ "page db c" c] nxt_ge [of c "page db c"]
    by (fastforce simp: sorted_wrt_append)
qed

text \<open>Nothing that is still stored is skipped.\<close>

lemma run_complete:
  assumes "cursor_run env page nxt db0 c0 db c got" and "invar db0" and "c0 \<le> high db0" and "c \<le> lim"
    and "i \<in> set (items db)" "sel i" "c0 < key i" "key i \<le> c"
  shows "i \<in> set got"
  using assms
proof (induction arbitrary: i rule: cursor_run.induct)
  case start
  then show ?case by simp
next
  case (other db c got db')
  have inv: "invar db"
    using run_invar other by blast
  have "key i \<le> high db"
    using run_below_high [OF other.hyps(1) other.prems(1,2)] other.prems by simp
  then show ?case
    using other.IH other.prems env_old [OF inv other.hyps(2)] by blast
next
  case (read db c got)
  have inv: "invar db"
    using run_invar read by blast
  have c: "c \<le> lim"
    using nxt_ge [of c "page db c"] read.prems(3) by simp
  show ?case
  proof (cases "key i \<le> c")
    case True
    then show ?thesis
      using read.IH [of i] read.prems c by simp
  next
    case False
    then show ?thesis
      using nxt_between [OF inv c, of i] read.prems by simp
  qed
qed

text \<open>Draining an unchanging store, page by page.\<close>

lemma page_nxt_rest:
  assumes inv: "invar db" and c: "c \<le> lim"
  shows "filter (\<lambda>i. sel i \<and> nxt c (page db c) < key i) (items db) =
    drop batch (filter (\<lambda>i. sel i \<and> c < key i) (items db))"
proof -
  let ?F = "filter (\<lambda>i. sel i \<and> c < key i) (items db)"
  let ?d = "nxt c (page db c)"
  have p: "page db c = take batch ?F"
    by (rule page_eq [OF inv c])
  have "sorted_wrt (<) (map key (take batch ?F @ drop batch ?F))"
    using sorted_wrt_map_filter [OF items_sorted [OF inv]] by simp
  then have s: "key j < key i" if "j \<in> set (take batch ?F)" "i \<in> set (drop batch ?F)" for i j
    using that by (simp only: map_append sorted_wrt_append) simp
  have lo: "key i \<le> ?d" if "i \<in> set (take batch ?F)" for i
    using nxt_item [of i "page db c" c] that p by simp
  have hi: "?d < key i" if "i \<in> set (drop batch ?F)" for i
  proof -
    have "c < key i"
      using that by (auto dest: in_set_dropD)
    then show ?thesis
      using nxt_in [of c "page db c"] s that p by auto
  qed
  have "filter (\<lambda>i. sel i \<and> ?d < key i) (items db) = filter (\<lambda>i. ?d < key i) ?F"
    using nxt_ge [of c "page db c"] by (auto intro!: filter_cong)
  also have "\<dots> = filter (\<lambda>i. ?d < key i) (take batch ?F @ drop batch ?F)"
    by simp
  also have "\<dots> = drop batch ?F"
    unfolding filter_append using lo hi
    by (simp add: filter_empty_conv not_less filter_id_conv del: append_take_drop_id)
  finally show ?thesis .
qed

lemma nxt_le_high:
  assumes "invar db" "c \<le> high db"
  shows "nxt c (page db c) \<le> high db"
  using nxt_in [of c "page db c"] page_items [OF assms(1), of c] items_high [OF assms(1)] assms(2)
  by auto

lemma drain_eq:
  assumes "invar db" and "high db \<le> lim" and "c \<le> high db"
  shows "snd (drain page nxt db n c) =
    take (n * batch) (filter (\<lambda>i. sel i \<and> c < key i) (items db))"
  using assms
proof (induction n arbitrary: c)
  case 0
  then show ?case by simp
next
  case (Suc n)
  let ?F = "filter (\<lambda>i. sel i \<and> c < key i) (items db)"
  have c: "c \<le> lim" using Suc.prems by simp
  have IH: "snd (drain page nxt db n (nxt c (page db c))) = take (n * batch) (drop batch ?F)"
    using Suc.IH [OF Suc.prems(1,2) nxt_le_high [OF Suc.prems(1,3)]]
      page_nxt_rest [OF Suc.prems(1) c] by simp
  have "snd (drain page nxt db (Suc n) c) = take batch ?F @ take (n * batch) (drop batch ?F)"
    using IH page_eq [OF Suc.prems(1) c] by (simp add: Let_def case_prod_beta)
  also have "\<dots> = take (Suc n * batch) ?F"
    by (simp add: take_add)
  finally show ?case .
qed

text \<open>A page below the batch size means that nothing is left to read.\<close>

lemma short_page_done:
  assumes "invar db" "c \<le> lim" "length (page db c) < batch"
  shows "filter (\<lambda>i. sel i \<and> nxt c (page db c) < key i) (items db) = []"
  using assms page_nxt_rest [OF assms(1,2)] page_eq [OF assms(1,2)] by simp

end

section \<open>A store that only grows\<close>

locale append_log = cursor_log +
  assumes env_keep: "invar d \<Longrightarrow> env d d' \<Longrightarrow> set (items d) \<subseteq> set (items d')"
begin

text \<open>A store that never deletes: the client holds exactly the items up to its cursor.\<close>

lemma run_received_items:
  assumes "cursor_run env page nxt db0 c0 db c got" and "invar db0"
  shows "set got \<subseteq> set (items db)"
  using assms(1,2)
proof (induction rule: cursor_run.induct)
  case start
  then show ?case by simp
next
  case (other db c got db')
  then show ?case
    using env_keep run_invar by blast
next
  case (read db c got)
  then show ?case
    using page_items run_invar by simp
qed

lemma run_exact:
  assumes run: "cursor_run env page nxt db0 c0 db c got" and inv0: "invar db0" and "c0 \<le> high db0"
    and "c \<le> lim"
  shows "got = filter (\<lambda>i. sel i \<and> c0 < key i \<and> key i \<le> c) (items db)"
proof -
  let ?F = "filter (\<lambda>i. sel i \<and> c0 < key i \<and> key i \<le> c) (items db)"
  have inv: "invar db"
    by (rule run_invar [OF run inv0])
  have sub: "set got \<subseteq> set (items db)"
    by (rule run_received_items [OF run inv0])
  have G: "sorted_wrt (<) (map key got)" "\<And>i. i \<in> set got \<Longrightarrow> sel i \<and> c0 < key i \<and> key i \<le> c"
    using run_sorted [OF run inv0 assms(4)] by auto
  have F: "sorted_wrt (<) (map key ?F)"
    by (rule sorted_wrt_map_filter) (rule items_sorted [OF inv])
  have set_eq: "set got = set ?F"
    using run_complete [OF run inv0 assms(3,4)] sub G(2) by auto
  have "map key got = map key ?F"
    using strict_sorted_equal [OF F G(1)] set_eq by simp
  moreover have "inj_on key (set (items db))"
    using items_sorted [OF inv] by (simp add: strict_sorted_iff distinct_map)
  then have "inj_on key (set got \<union> set ?F)"
    by (rule inj_on_subset) (use sub in auto)
  ultimately show ?thesis
    by (rule map_inj_on)
qed

end

end
