(* ===== verification/PullClient.thy ===== *)
theory PullClient
  imports Grpc CursorLog
begin

text \<open>
  The pull side of the service as a whole: the handlers that write the table (\<open>send_note\<close> of any
  client, the maintenance cleanup) as a step relation, a client that repeats \<open>fetch_notes\<close> for a
  fixed set of tags with the cursor of the previous response, and the interpretation of the
  cursor contract on the handlers' model.
\<close>

section \<open>Steps of the table\<close>

inductive send_step :: "('h, 't) extern \<Rightarrow> grpc_server_config \<Rightarrow> notes_table \<Rightarrow> notes_table \<Rightarrow> bool"
  for x cfg where
  send: "send_note x cfg f now req t tel = (r, t', tel') \<Longrightarrow> send_step x cfg t t'"

inductive db_step :: "('h, 't) extern \<Rightarrow> grpc_server_config \<Rightarrow> notes_table \<Rightarrow> notes_table \<Rightarrow> bool"
  for x cfg where
  send: "send_note x cfg f now req t tel = (r, t', tel') \<Longrightarrow> db_step x cfg t t'"
| cleanup: "db_cleanup_old_notes x f now days t = Some (r, t') \<Longrightarrow> db_step x cfg t t'"

inductive_cases send_stepE: "send_step x cfg t t'"
inductive_cases db_stepE: "db_step x cfg t t'"

text \<open>What a step can do: nothing, append one row with the next \<open>seq\<close>, or drop rows.\<close>

lemma send_note_cases:
  assumes "table_ok t" and "send_note x cfg f now req t tel = (r, t', tel')"
  obtains (same) "t' = t"
  | (grown) s n where "sint s = sint (tbl_seq t) + 1" "nn_id n \<notin> nr_id ` set (tbl_rows t)"
      "tbl_rows t' = tbl_rows t @ [row_of_new s n]" "tbl_seq t' = s"
proof (cases r)
  case (Ok a)
  with assms(2) have s: "send_note x cfg f now req t tel = (Ok a, t', tel')"
    by simp
  obtain n where i: "sql_insert (new_note_of_stored x n) t = Ok t'"
    using send_note_OkD [OF s] .
  show ?thesis
    by (rule sql_insert_OkD [OF assms(1) i]) (rule grown)
next
  case (Err e)
  with assms(2) have "send_note x cfg f now req t tel = (Err e, t', tel')"
    by simp
  then show ?thesis
    by (rule same [OF send_note_ErrD])
qed

lemma db_cleanup_cases:
  assumes "db_cleanup_old_notes x f now days t = Some (r, t')"
  obtains (same) "t' = t"
  | (shrunk) cutoff :: i64 where "tbl_rows t' = filter (\<lambda>r. \<not> sint (nr_created_at r) < sint cutoff) (tbl_rows t)"
      "tbl_seq t' = tbl_seq t"
proof (cases r)
  case (Ok k)
  with assms have c: "db_cleanup_old_notes x f now days t = Some (Ok k, t')"
    by simp
  obtain cutoff where "t' = snd (sql_delete_older (ts_micros x cutoff) t)"
    using db_cleanup_OkD [OF c] .
  then show ?thesis
    by (intro shrunk [of "ts_micros x cutoff"]) simp_all
next
  case (Err e)
  with assms have "db_cleanup_old_notes x f now days t = Some (Err e, t')"
    by simp
  then show ?thesis
    by (rule same [OF db_cleanup_ErrD])
qed

lemma send_step_db_step: "send_step x cfg t t' \<Longrightarrow> db_step x cfg t t'"
  by (auto elim: send_stepE intro: db_step.send)

lemma db_step_ok:
  assumes "db_ok x t" and "db_step x cfg t t'"
  shows "db_ok x t'"
  using assms(2)
proof cases
  case (send f now req tel r tel')
  from send_note_ok [OF assms(1), of cfg f now req tel] show ?thesis
    by (simp only: send fst_conv snd_conv)
next
  case (cleanup f now days r)
  show ?thesis
    by (rule db_cleanup_ok [OF assms(1) cleanup])
qed

lemma db_step_high:
  assumes "db_ok x t" and "db_step x cfg t t'"
  shows "sint (tbl_seq t) \<le> sint (tbl_seq t')"
  using assms(2)
proof cases
  case (send f now req tel r tel')
  show ?thesis
    by (cases rule: send_note_cases [OF db_ok_table [OF assms(1)] send]) auto
next
  case (cleanup f now days r)
  then show ?thesis
    by (cases rule: db_cleanup_cases) auto
qed

lemma db_step_old:
  assumes "db_ok x t" and "db_step x cfg t t'" and "r \<in> set (tbl_rows t')" and "row_key r \<le> sint (tbl_seq t)"
  shows "r \<in> set (tbl_rows t)"
  using assms(2)
proof cases
  case (send f now req tel q tel')
  show ?thesis
    by (cases rule: send_note_cases [OF db_ok_table [OF assms(1)] send]) (use assms(3,4) in auto)
next
  case (cleanup f now days q)
  from cleanup show ?thesis
  proof (cases rule: db_cleanup_cases)
    case same
    with assms(3) show ?thesis by simp
  next
    case (shrunk cutoff)
    from assms(3) show ?thesis unfolding shrunk(1) by simp
  qed
qed

lemma send_step_keep:
  assumes "db_ok x t" and "send_step x cfg t t'"
  shows "set (tbl_rows t) \<subseteq> set (tbl_rows t')"
  using assms(2)
proof cases
  case (send f now req tel q tel')
  show ?thesis
    by (cases rule: send_note_cases [OF db_ok_table [OF assms(1)] send]) auto
qed

section \<open>The contract, on the handlers' model\<close>

abbreviation has_tag :: "u32 list \<Rightarrow> note_row \<Rightarrow> bool" where
  "has_tag tags r \<equiv> nr_tag r \<in> i64_of_u32 ` set tags"

abbreviation LEGACY :: int where
  "LEGACY \<equiv> 1000000000000"

text \<open>The page a fetch at an integer cursor reads, with the legacy reset.\<close>

definition pull_page :: "u32 list \<Rightarrow> notes_table \<Rightarrow> int \<Rightarrow> note_row list" where
  "pull_page tags t c = query_page tags (if LEGACY < c then 0 else c) t"

lemma pull_page_cursor: "query_page tags (cursor_value c) t = pull_page tags t (uint c)"
  by (simp add: pull_page_def cursor_value_def legacy_threshold_uint)

lemma pull_page_rows: "set (pull_page tags t c) \<subseteq> set (tbl_rows t)"
  by (auto simp: pull_page_def dest: query_page_in)

interpretation pull: cursor_log "db_ok x" tbl_rows row_key "\<lambda>t. sint (tbl_seq t)" "db_step x cfg"
    "has_tag tags" "pull_page tags" page_end LEGACY 500 for x cfg tags
proof unfold_locales
  show "sorted_wrt (<) (map row_key (tbl_rows t))" if "db_ok x t" for t
    using that by (intro table_okD(1) db_ok_table)
  show "row_key r \<le> sint (tbl_seq t)" if "db_ok x t" "r \<in> set (tbl_rows t)" for t r
    using that table_okD(3) db_ok_table by blast
  show "pull_page tags t c = take 500 (filter (\<lambda>i. has_tag tags i \<and> c < row_key i) (tbl_rows t))"
    if "db_ok x t" "c \<le> LEGACY" for t c
    using that by (simp add: pull_page_def query_page_def)
  show "page_end c p = c \<or> (\<exists>r \<in> set p. page_end c p = row_key r)" for c p
    by (rule page_end_in)
qed (auto intro: db_step_ok db_step_high db_step_old page_end_ge page_end_ge_row
    dest: subsetD [OF pull_page_rows])

interpretation pull_sends: append_log "db_ok x" tbl_rows row_key "\<lambda>t. sint (tbl_seq t)" "send_step x cfg"
    "has_tag tags" "pull_page tags" page_end LEGACY 500 for x cfg tags
proof unfold_locales
  show "db_ok x t'" if "db_ok x t" "send_step x cfg t t'" for t t'
    using that db_step_ok send_step_db_step by blast
  show "sint (tbl_seq t) \<le> sint (tbl_seq t')" if "db_ok x t" "send_step x cfg t t'" for t t'
    using that db_step_high send_step_db_step by blast
  show "r \<in> set (tbl_rows t)"
    if "db_ok x t" "send_step x cfg t t'" "r \<in> set (tbl_rows t')" "row_key r \<le> sint (tbl_seq t)" for t t' r
    using that db_step_old send_step_db_step by blast
  show "set (tbl_rows t) \<subseteq> set (tbl_rows t')" if "db_ok x t" "send_step x cfg t t'" for t t'
    using that by (rule send_step_keep)
  show "page_end c p = c \<or> (\<exists>r \<in> set p. page_end c p = row_key r)" for c p
    by (rule page_end_in)
qed (auto intro: pull.items_sorted pull.items_high pull.page_eq page_end_ge page_end_ge_row
    dest: subsetD [OF pull_page_rows])

section \<open>The pull client\<close>

text \<open>
  A client that started with the cursor \<open>c0\<close> on the table \<open>t0\<close>: other calls change the table
  (\<open>env\<close>), and each successful response moves its cursor and adds to what it has received. A
  failed or lost response leaves both as they were.
\<close>

inductive pull_run ::
  "(notes_table \<Rightarrow> notes_table \<Rightarrow> bool) \<Rightarrow> ('h, 't) extern \<Rightarrow> u32 list \<Rightarrow> notes_table \<Rightarrow> u64
     \<Rightarrow> notes_table \<Rightarrow> u64 \<Rightarrow> transport_note list \<Rightarrow> bool"
  for env x tags t0 c0 where
  start: "pull_run env x tags t0 c0 t0 c0 []"
| other: "pull_run env x tags t0 c0 t c notes \<Longrightarrow> env t t' \<Longrightarrow> pull_run env x tags t0 c0 t' c notes"
| fetch: "pull_run env x tags t0 c0 t c notes \<Longrightarrow>
     fetch_notes x f \<lparr>fnr_tags = tags, fnr_cursor = c\<rparr> t tel = (Ok resp, tel') \<Longrightarrow>
     pull_run env x tags t0 c0 t (fnp_cursor resp) (notes @ fnp_notes resp)"

lemma fetch_notes_pull_page:
  assumes "db_ok x t" "codec_ok x"
    and "fetch_notes x f \<lparr>fnr_tags = tags, fnr_cursor = c\<rparr> t tel = (Ok resp, tel')"
  shows "fnp_notes resp = map row_transport (pull_page tags t (uint c))"
    "uint (fnp_cursor resp) = page_end (uint c) (pull_page tags t (uint c))"
  using fetch_notes_OkD [OF assms] by (simp_all add: pull_page_cursor)

text \<open>Every run of the client is a run of the contract's abstract reader.\<close>

lemma pull_run_cursor_run:
  assumes "pull_run env x tags t0 c0 t c notes" and "db_ok x t0" "codec_ok x"
    and env: "\<And>t t'. env t t' \<Longrightarrow> db_step x cfg t t'"
  shows "\<exists>rows. notes = map row_transport rows \<and> db_ok x t \<and>
    cursor_run env (pull_page tags) page_end t0 (uint c0) t (uint c) rows"
  using assms(1,2)
proof (induction rule: pull_run.induct)
  case start
  then show ?case by (auto intro: cursor_run.start)
next
  case (other t c ns t')
  then show ?case
    using env db_step_ok by (blast intro: cursor_run.other)
next
  case (fetch t c ns f tel resp tel')
  then obtain rows where r: "ns = map row_transport rows" "db_ok x t"
      "cursor_run env (pull_page tags) page_end t0 (uint c0) t (uint c) rows"
    by blast
  have "ns @ fnp_notes resp = map row_transport (rows @ pull_page tags t (uint c))"
    using fetch_notes_pull_page [OF r(2) assms(3) fetch.hyps(2)] r(1) by simp
  moreover have "cursor_run env (pull_page tags) page_end t0 (uint c0) t (uint (fnp_cursor resp))
      (rows @ pull_page tags t (uint c))"
    using fetch_notes_pull_page(2) [OF r(2) assms(3) fetch.hyps(2)] cursor_run.read [OF r(3)] by simp
  ultimately show ?case
    using r(2) by blast
qed

section \<open>Repeating the call on an unchanging table\<close>

text \<open>\<open>n\<close> calls in a row; the loop stops with the error of the first call that fails.\<close>

fun fetch_loop ::
  "('h, 't) extern \<Rightarrow> u32 list \<Rightarrow> notes_table \<Rightarrow> telemetry \<Rightarrow> nat \<Rightarrow> u64
     \<Rightarrow> (u64 \<times> transport_note list, status) result" where
  "fetch_loop x tags t tel 0 c = Ok (c, [])"
| "fetch_loop x tags t tel (Suc n) c =
     (case fetch_notes x no_faults \<lparr>fnr_tags = tags, fnr_cursor = c\<rparr> t tel of
        (Err s, _) \<Rightarrow> Err s
      | (Ok resp, tel) \<Rightarrow>
          res_bind (fetch_loop x tags t tel n (fnp_cursor resp))
            (\<lambda>(c', rest). Ok (c', fnp_notes resp @ rest)))"

lemma fetch_loop_drain:
  assumes "db_ok x t" "codec_ok x" "clock_ok x" "length tags \<le> 128"
  shows "\<exists>c'. fetch_loop x tags t tel n c =
      Ok (c', map row_transport (snd (drain (pull_page tags) page_end t n (uint c)))) \<and>
    uint c' = fst (drain (pull_page tags) page_end t n (uint c))"
proof (induction n arbitrary: c tel)
  case 0
  then show ?case by simp
next
  case (Suc n)
  obtain resp tel' where r:
      "fetch_notes x no_faults \<lparr>fnr_tags = tags, fnr_cursor = c\<rparr> t tel = (Ok resp, tel')"
    using fetch_notes_no_faults_Ok [OF assms(1-3), of "\<lparr>fnr_tags = tags, fnr_cursor = c\<rparr>" tel] assms(4)
    by auto
  note p = fetch_notes_pull_page [OF assms(1,2) r]
  obtain c' where c': "fetch_loop x tags t tel' n (fnp_cursor resp) =
      Ok (c', map row_transport (snd (drain (pull_page tags) page_end t n (uint (fnp_cursor resp)))))"
      "uint c' = fst (drain (pull_page tags) page_end t n (uint (fnp_cursor resp)))"
    using Suc.IH by blast
  show ?case
    using r p c' by (simp add: Let_def case_prod_beta)
qed

end
