(* ===== verification/Examples.thy ===== *)
theory Examples
  imports PullClient
begin

text \<open>
  Concrete values on which statements with hypotheses are applied: a telemetry record, a request
  and the table it creates from the empty one, and the evaluation of the handlers on them.
\<close>

definition tel0 :: telemetry where
  "tel0 = \<lparr>tel_clock = (\<lambda>n. 10 * n), tel_reads = 0, tel_events = []\<rparr>"

definition note1 :: transport_note where
  "note1 = \<lparr>tn_header = [7, 3], tn_details = [1, 2], tn_after_block_num = Some 12\<rparr>"

definition req1 :: send_note_request where
  "req1 = \<lparr>snr_note = Some \<lparr>tn_header = [7, 3, 9], tn_details = [1, 2], tn_after_block_num = Some 12\<rparr>\<rparr>"

definition row1 :: note_row where
  "row1 = \<lparr>nr_seq = 1, nr_id = [7], nr_tag = 3, nr_header = [7, 3], nr_details = [1, 2],
           nr_created_at = 50, nr_after_block_num = Some 12\<rparr>"

definition row2 :: note_row where
  "row2 = \<lparr>nr_seq = 2, nr_id = [8], nr_tag = 5, nr_header = [8, 5], nr_details = [],
           nr_created_at = 60, nr_after_block_num = None\<rparr>"

definition table1 :: notes_table where
  "table1 = \<lparr>tbl_rows = [row1], tbl_seq = 1\<rparr>"

definition table2 :: notes_table where
  "table2 = \<lparr>tbl_rows = [row1, row2], tbl_seq = 2\<rparr>"

lemmas example_rows = row1_def row2_def table1_def table2_def note1_def

lemma row1_written: "row1 = row_of_new 1 (new_note_of_stored mini_extern
    \<lparr>sn_header = (7, 3), sn_details = [1, 2], sn_created_at = 50, sn_seq = 0, sn_after_block_num = Some 12\<rparr>)"
  by (simp add: row1_def row_of_new_def new_note_of_stored_def i64_of_u32_def)

lemma row2_written: "row2 = row_of_new 2 (new_note_of_stored mini_extern
    \<lparr>sn_header = (8, 5), sn_details = [], sn_created_at = 60, sn_seq = 0, sn_after_block_num = None\<rparr>)"
  by (simp add: row2_def row_of_new_def new_note_of_stored_def i64_of_u32_def)

lemma row1_ok: "well_formed_row mini_extern row1"
  by (subst row1_written) (rule well_formed_row_of_new)

lemma row2_ok: "well_formed_row mini_extern row2"
  by (subst row2_written) (rule well_formed_row_of_new)

lemma table1_ok: "db_ok mini_extern table1"
  using row1_ok by (simp add: db_ok_def table_ok_def table1_def) (simp add: row1_def)

lemma table2_ok: "db_ok mini_extern table2"
  using row1_ok row2_ok by (simp add: db_ok_def table_ok_def table2_def) (simp add: row1_def row2_def)

lemmas handler_eval =
  send_note_def fetch_notes_def MAX_TAGS_PER_FETCH_REQUEST_def Let_def db_fetch_notes_by_tags_def
  timer_defs effective_cursor_def LEGACY_CURSOR_THRESHOLD_def i64_try_u64_def sql_select_notes_def
  batch_size_nat i64_of_u32_def stored_of_row_def u32_try_i64_def u64_try_i64_def
  transport_of_stored_def payload_size_def grpc_config_default_def db_store_note_def
  empty_table_def new_note_of_stored_def sql_insert_def next_rowid_def max_rowid_def row_of_new_def

text \<open>Storing the request's note in the empty table, and reading it back.\<close>

lemma send_req1:
  "\<exists>tel'. send_note mini_extern grpc_config_default no_faults 50 req1 empty_table tel0 =
     (Ok SendNoteResponse, table1, tel')"
  by (simp add: handler_eval req1_def example_rows)

lemma fetch_table1:
  "\<exists>tel'. fetch_notes mini_extern no_faults \<lparr>fnr_tags = [3, 5], fnr_cursor = 0\<rparr> table1 tel0 =
     (Ok \<lparr>fnp_notes = [note1], fnp_cursor = 1\<rparr>, tel')"
  by (simp add: handler_eval example_rows sorted_list_of_set_insert_remove)

lemma fetch_table1_legacy:
  "\<exists>tel'. fetch_notes mini_extern no_faults \<lparr>fnr_tags = [3, 5], fnr_cursor = 1760000000000000\<rparr> table1 tel0 =
     (Ok \<lparr>fnp_notes = [note1], fnp_cursor = 1760000000000000\<rparr>, tel')"
  by (simp add: handler_eval example_rows sorted_list_of_set_insert_remove)

lemma pull_run_example:
  "pull_run (db_step mini_extern grpc_config_default) mini_extern [3, 5] empty_table 0 table1 1 [note1]"
proof -
  obtain tel' where s: "send_note mini_extern grpc_config_default no_faults 50 req1 empty_table tel0 =
      (Ok SendNoteResponse, table1, tel')"
    using send_req1 by blast
  have "pull_run (db_step mini_extern grpc_config_default) mini_extern [3, 5] empty_table 0 table1 0 []"
    by (rule pull_run.other [OF pull_run.start]) (rule db_step.send [OF s])
  moreover obtain tel2 where
    "fetch_notes mini_extern no_faults \<lparr>fnr_tags = [3, 5], fnr_cursor = 0\<rparr> table1 tel0 =
      (Ok \<lparr>fnp_notes = [note1], fnp_cursor = 1\<rparr>, tel2)"
    using fetch_table1 by blast
  ultimately show ?thesis
    using pull_run.fetch by fastforce
qed

lemma pull_run_sends_example:
  "pull_run (send_step mini_extern grpc_config_default) mini_extern [3, 5] empty_table 0 table1 1 [note1]"
proof -
  obtain tel' where s: "send_note mini_extern grpc_config_default no_faults 50 req1 empty_table tel0 =
      (Ok SendNoteResponse, table1, tel')"
    using send_req1 by blast
  have "pull_run (send_step mini_extern grpc_config_default) mini_extern [3, 5] empty_table 0 table1 0 []"
    by (rule pull_run.other [OF pull_run.start]) (rule send_step.send [OF s])
  moreover obtain tel2 where
    "fetch_notes mini_extern no_faults \<lparr>fnr_tags = [3, 5], fnr_cursor = 0\<rparr> table1 tel0 =
      (Ok \<lparr>fnp_notes = [note1], fnp_cursor = 1\<rparr>, tel2)"
    using fetch_table1 by blast
  ultimately show ?thesis
    using pull_run.fetch by fastforce
qed

end
