(* ===== verification/StoreProps.thy ===== *)
theory StoreProps
  imports Examples
begin

text \<open>
  The properties of the request handlers and of the database methods behind them, call by call.
\<close>

section \<open>Sending\<close>

lemma seq_plus_one: "sint s = sint (r :: i64) + 1 \<Longrightarrow> s = r + 1"
proof -
  assume "sint s = sint r + 1"
  then have "(of_int (sint s) :: i64) = of_int (sint r + 1)"
    by (simp only:)
  then show "s = r + 1"
    by simp
qed

text \<open>
  C17. A send has exactly two outcomes. Under any failure of the pool, the thread pool or the
  engine, the call either returns an error and the table is as before, or it succeeds and the
  table has one more row, last: the request's note under the next \<open>seq\<close>, with an identifier no
  stored note has. The high-water mark of \<open>seq\<close> moves by one.
\<close>

theorem send_note_stores_once_or_not_at_all:
  assumes "db_ok x t" and "send_note x cfg f now req t tel = (r, t', tel')"
  shows "case r of
      Err s \<Rightarrow> t' = t
    | Ok a \<Rightarrow> (case accepted_note x cfg now req of
          None \<Rightarrow> False
        | Some n \<Rightarrow> hdr_id x (sn_header n) \<notin> nr_id ` set (tbl_rows t)
            \<and> tbl_rows t' = tbl_rows t @ [row_of_new (tbl_seq t + 1) (new_note_of_stored x n)]
            \<and> tbl_seq t' = tbl_seq t + 1)"
proof (cases r)
  case (Err e)
  then show ?thesis
    using send_note_ErrD assms(2) by simp
next
  case (Ok a)
  with assms(2) have s: "send_note x cfg f now req t tel = (Ok a, t', tel')"
    by simp
  obtain n where n: "accepted_note x cfg now req = Some n" "sql_insert (new_note_of_stored x n) t = Ok t'"
    using send_note_OkD [OF s] .
  show ?thesis
    by (rule sql_insert_OkD [OF db_ok_table [OF assms(1)] n(2)])
      (use n(1) Ok in \<open>auto dest!: seq_plus_one simp: new_note_of_stored_def\<close>)
qed

theorem send_note_stores_once_or_not_at_all_witness:
  "tbl_rows table1 = tbl_rows empty_table @ [row_of_new (tbl_seq empty_table + 1) (new_note_of_stored mini_extern
      \<lparr>sn_header = (7, 3), sn_details = [1, 2], sn_created_at = 50, sn_seq = 0, sn_after_block_num = Some 12\<rparr>)]"
proof -
  obtain tel' where "send_note mini_extern grpc_config_default no_faults 50 req1 empty_table tel0 =
      (Ok SendNoteResponse, table1, tel')"
    using send_req1 by blast
  from send_note_stores_once_or_not_at_all [OF db_ok_empty this] show ?thesis
    by (simp add: accepted_note_def req1_def grpc_config_default_def payload_size_def)
qed

text \<open>
  C29. When nothing fails, a send is decided by its guards and the identifier alone: a request
  without a note, with more than the maximum of header and details bytes, or with a header that
  does not parse is refused, in this order, without touching the database and whatever it
  contains; a note whose identifier is stored is refused with an internal error; every other one
  is accepted (the table's \<open>seq\<close> not being exhausted).
\<close>

theorem send_note_decision:
  assumes "db_ok x t" and "sint (tbl_seq t) < 2 ^ 63 - 1"
  shows "fst (send_note x cfg no_faults now req t tel) =
    (case snr_note req of
       None \<Rightarrow> Err (invalid_argument ''Missing note'')
     | Some p \<Rightarrow>
         if gc_max_note_size cfg < length (tn_header p) + length (tn_details p)
         then Err (resource_exhausted (''Note too large ('' @
                show_nat (length (tn_header p) + length (tn_details p)) @ '')''))
         else (case hdr_read x (tn_header p) of
             Err e \<Rightarrow> Err (invalid_argument (''Invalid header: '' @ de_debug e))
           | Ok h \<Rightarrow>
               if hdr_id x h \<in> nr_id ` set (tbl_rows t)
               then Err (internal (''Failed to store note: '' @ debug_db_error
                      (db_error_of_diesel (DieselDatabaseError UniqueViolation ''UNIQUE constraint failed: notes.id''))))
               else Ok SendNoteResponse))"
proof (cases "accepted_note x cfg now req")
  case None
  then show ?thesis
    by (auto simp: accepted_note_def send_note_def payload_size_def Let_def
        split: option.splits if_splits result.splits prod.splits)
next
  case (Some n)
  obtain p h where p: "snr_note req = Some p" "payload_size p \<le> gc_max_note_size cfg"
      "hdr_read x (tn_header p) = Ok h"
      "n = \<lparr>sn_header = h, sn_details = tn_details p, sn_created_at = now, sn_seq = 0,
            sn_after_block_num = tn_after_block_num p\<rparr>"
    using Some by (rule accepted_noteD)
  have i: "nn_id (new_note_of_stored x n) = hdr_id x h"
    by (simp add: new_note_of_stored_def p(4))
  obtain s where s: "next_rowid t = Some s"
    using next_rowid_available [OF db_ok_table [OF assms(1)] assms(2)] by blast
  have "sql_insert (new_note_of_stored x n) t =
      (if hdr_id x h \<in> nr_id ` set (tbl_rows t)
       then Err (DieselDatabaseError UniqueViolation ''UNIQUE constraint failed: notes.id'')
       else Ok (t\<lparr>tbl_rows := tbl_rows t @ [row_of_new s (new_note_of_stored x n)], tbl_seq := s\<rparr>))"
    using s i by (simp add: sql_insert_def)
  then show ?thesis
    using send_note_no_faults_accepted [OF Some, of t tel] p by (simp add: payload_size_def)
qed

theorem send_note_decision_witness:
  "fst (send_note mini_extern grpc_config_default no_faults 60 req1 table1 tel0) =
    Err (internal (''Failed to store note: '' @ debug_db_error
      (db_error_of_diesel (DieselDatabaseError UniqueViolation ''UNIQUE constraint failed: notes.id''))))"
  unfolding send_note_decision [OF table1_ok, unfolded table1_def, simplified, folded table1_def]
  by (simp add: req1_def grpc_config_default_def table1_def row1_def)

text \<open>
  A request the guards refuse is refused whatever the database does: the answer does not
  depend on the table or on failures, and the table is not changed.
\<close>

theorem send_note_guards_before_database:
  assumes "accepted_note x cfg now req = None"
  shows "fst (send_note x cfg f now req t tel) = fst (send_note x cfg f' now req t'' tel'')
    \<and> fst (snd (send_note x cfg f now req t tel)) = t"
  using assms
  by (auto simp: accepted_note_def send_note_def Let_def
      split: option.splits if_splits result.splits prod.splits)

theorem send_note_guards_before_database_witness:
  "fst (send_note mini_extern grpc_config_default no_faults 60 \<lparr>snr_note = None\<rparr> table1 tel0) =
     fst (send_note mini_extern grpc_config_default (no_faults\<lparr>f_pool := Some ''Timeout''\<rparr>) 60
       \<lparr>snr_note = None\<rparr> table2 tel0)
    \<and> fst (snd (send_note mini_extern grpc_config_default no_faults 60 \<lparr>snr_note = None\<rparr> table1 tel0)) = table1"
  by (rule send_note_guards_before_database) (simp add: accepted_note_def)

section \<open>Sending, then fetching\<close>



end
