(* ===== verification/StoreProps2.thy ===== *)
theory StoreProps2
  imports StoreProps
begin

text \<open>
  The properties of the reading calls, of the cleanup, of the conversions between rows and notes,
  and of the durations the handlers record.
\<close>

section \<open>Fetching\<close>

text \<open>
  C22. What a fetch returns. When nothing fails, a request of at most 128 tags succeeds with the
  first 500 stored rows whose tag is among its tags and whose \<open>seq\<close> is above its cursor (above 0
  for a legacy cursor), in \<open>seq\<close> order, and with the largest \<open>seq\<close> of the page as the cursor, or
  the request's when that is larger.
\<close>

theorem fetch_notes_exact:
  assumes "db_ok x t" "codec_ok x" "clock_ok x" and "length tags \<le> 128"
  shows "\<exists>c'. fst (fetch_notes x no_faults \<lparr>fnr_tags = tags, fnr_cursor = c\<rparr> t tel) =
      Ok \<lparr>fnp_notes = map row_transport (take 500 (filter (\<lambda>r. has_tag tags r \<and>
            (if LEGACY_CURSOR_THRESHOLD < c then 0 else uint c) < row_key r) (tbl_rows t))),
          fnp_cursor = c'\<rparr>
    \<and> uint c' = foldr max (map row_key (take 500 (filter (\<lambda>r. has_tag tags r \<and>
            (if LEGACY_CURSOR_THRESHOLD < c then 0 else uint c) < row_key r) (tbl_rows t)))) (uint c)"
proof -
  let ?req = "\<lparr>fnr_tags = tags, fnr_cursor = c\<rparr>"
  let ?page = "query_page tags (cursor_value c) t"
  have p: "?page = take 500 (filter (\<lambda>r. has_tag tags r \<and>
      (if LEGACY_CURSOR_THRESHOLD < c then 0 else uint c) < row_key r) (tbl_rows t))"
    by (simp add: query_page_def cursor_value_def)
  obtain resp tel' where r: "fetch_notes x no_faults ?req t tel = (Ok resp, tel')"
    using fetch_notes_no_faults_Ok [OF assms(1-3), of ?req tel] assms(4) by auto
  from fetch_notes_OkD [OF assms(1,2) r] show ?thesis
    by (intro exI [of _ "fnp_cursor resp"]) (simp add: r p [symmetric] page_end_foldr)
qed

theorem fetch_notes_exact_witness:
  "\<exists>c'. fst (fetch_notes mini_extern no_faults \<lparr>fnr_tags = [5, 3, 5], fnr_cursor = 1\<rparr> table2 tel0) =
      Ok \<lparr>fnp_notes = map row_transport (take 500 (filter (\<lambda>r. has_tag [5, 3, 5] r \<and>
            (if LEGACY_CURSOR_THRESHOLD < (1 :: u64) then 0 else uint (1 :: u64)) < row_key r) (tbl_rows table2))),
          fnp_cursor = c'\<rparr>
    \<and> uint c' = foldr max (map row_key (take 500 (filter (\<lambda>r. has_tag [5, 3, 5] r \<and>
            (if LEGACY_CURSOR_THRESHOLD < (1 :: u64) then 0 else uint (1 :: u64)) < row_key r) (tbl_rows table2)))) (uint (1 :: u64))"
  by (rule fetch_notes_exact [OF table2_ok mini_codec_ok mini_clock_ok]) simp

text \<open>
  C23. A failing fetch never answers with less than it should: under any failure of the database a
  response that is \<open>Ok\<close> is the one the table determines; every other outcome is an error with the
  code \<open>Internal\<close>, or \<open>InvalidArgument\<close> for a request of more than 128 tags.
\<close>

theorem fetch_notes_right_or_error:
  assumes "db_ok x t" "codec_ok x" "clock_ok x"
  shows "case fst (fetch_notes x f req t tel) of
      Ok resp \<Rightarrow> fst (fetch_notes x no_faults req t tel') = Ok resp
    | Err s \<Rightarrow> st_code s = (if 128 < length (fnr_tags req) then InvalidArgument else Internal)"
proof (cases "fetch_notes x f req t tel")
  case (Pair r tel1)
  show ?thesis
  proof (cases r)
    case (Ok resp)
    with Pair have r: "fetch_notes x f req t tel = (Ok resp, tel1)"
      by simp
    note a = fetch_notes_OkD [OF assms(1,2) r]
    obtain resp' tel2 where r': "fetch_notes x no_faults req t tel' = (Ok resp', tel2)"
      using fetch_notes_no_faults_Ok [OF assms a(1)] by blast
    note b = fetch_notes_OkD [OF assms(1,2) r']
    have "fnp_cursor resp' = fnp_cursor resp"
      using a(3) b(3) by (simp add: word_uint_eq_iff)
    then have "resp' = resp"
      using a(2) b(2) by simp
    then show ?thesis
      using Pair Ok r' by simp
  next
    case (Err s)
    have adv: "st_code s' = Internal" if "advance_cursor c seqs = Err s'" for c seqs s'
      using that by (induction c seqs rule: advance_cursor.induct)
        (auto simp: internal_def split: option.splits)
    show ?thesis
      using Pair Err
      by (auto simp: fetch_notes_def Let_def MAX_TAGS_PER_FETCH_REQUEST_def invalid_argument_def
          internal_def dest: adv split: prod.splits if_splits result.splits)
  qed
qed

theorem fetch_notes_right_or_error_witness:
  "case fst (fetch_notes mini_extern (no_faults\<lparr>f_interact := Some ''Aborted''\<rparr>)
       \<lparr>fnr_tags = [3], fnr_cursor = 0\<rparr> table1 tel0) of
      Ok resp \<Rightarrow> fst (fetch_notes mini_extern no_faults \<lparr>fnr_tags = [3], fnr_cursor = 0\<rparr> table1 tel0) = Ok resp
    | Err s \<Rightarrow> st_code s = (if 128 < length (fnr_tags \<lparr>fnr_tags = [3], fnr_cursor = 0\<rparr>) then InvalidArgument else Internal)"
  by (rule fetch_notes_right_or_error [OF table1_ok mini_codec_ok mini_clock_ok])

text \<open>
  The tag limit counts what the request repeats, before anything else is looked at: a request
  with more than 128 tags is refused without a database call, though they may all be equal; up to
  the limit, order and repetition of the tags make no difference to the answer.
\<close>

theorem fetch_tag_list:
  "(128 < length (fnr_tags req) \<longrightarrow>
      fst (fetch_notes x f req t tel) = Err (invalid_argument (''Too many tags in fetch_notes request: '' @
        show_nat (length (fnr_tags req)) @ '' (max 128)'')))
   \<and> (length (fnr_tags req) \<le> 128 \<longrightarrow> length tags' \<le> 128 \<longrightarrow> set tags' = set (fnr_tags req) \<longrightarrow>
      fetch_notes x f (req\<lparr>fnr_tags := tags'\<rparr>) t tel = fetch_notes x f req t tel)"
proof -
  have m: "show_nat 128 = ''128''"
    by (simp add: show_nat.simps digit_char_def char_of_def bit_0)
  show ?thesis
    by (auto simp: fetch_notes_def Let_def MAX_TAGS_PER_FETCH_REQUEST_def m case_prod_beta)
qed

theorem fetch_tag_list_witness:
  "fst (fetch_notes mini_extern no_faults \<lparr>fnr_tags = replicate 129 3, fnr_cursor = 0\<rparr> table1 tel0) =
     Err (invalid_argument (''Too many tags in fetch_notes request: '' @ show_nat 129 @ '' (max 128)''))"
  using fetch_tag_list [of "\<lparr>fnr_tags = replicate 129 3, fnr_cursor = 0\<rparr>" mini_extern no_faults table1 tel0 "[]"]
  by simp

section \<open>The table over time\<close>

lemma db_steps:
  assumes "(db_step x cfg)\<^sup>*\<^sup>* t t'" and "db_ok x t"
  shows "db_ok x t' \<and> sint (tbl_seq t) \<le> sint (tbl_seq t') \<and>
    (\<forall>r \<in> set (tbl_rows t'). row_key r \<le> sint (tbl_seq t) \<longrightarrow> r \<in> set (tbl_rows t))"
  using assms
proof (induction rule: rtranclp_induct)
  case base
  then show ?case by simp
next
  case (step u v)
  then have u: "db_ok x u" "sint (tbl_seq t) \<le> sint (tbl_seq u)"
      "\<forall>r \<in> set (tbl_rows u). row_key r \<le> sint (tbl_seq t) \<longrightarrow> r \<in> set (tbl_rows t)"
    by auto
  show ?case
    using db_step_ok [OF u(1) step(2)] db_step_high [OF u(1) step(2)] u
      db_step_old [OF u(1) step(2)] by fastforce
qed

text \<open>
  C24. A \<open>seq\<close> names one note for ever: whatever is sent and cleaned up between two moments, rows
  with the same \<open>seq\<close> are the same row, so a deleted note's \<open>seq\<close> is never given to another one.
\<close>

theorem seq_is_never_reused:
  assumes "db_ok x t" and "(db_step x cfg)\<^sup>*\<^sup>* t t'"
    and "r \<in> set (tbl_rows t)" and "r' \<in> set (tbl_rows t')" and "row_key r = row_key r'"
  shows "r = r'"
proof -
  have "r' \<in> set (tbl_rows t)"
    using db_steps [OF assms(2,1)] assms(3-5) table_okD(3) [OF db_ok_table [OF assms(1)]] by fastforce
  moreover have "inj_on row_key (set (tbl_rows t))"
    using table_okD(1) [OF db_ok_table [OF assms(1)]] by (simp add: strict_sorted_iff distinct_map)
  ultimately show ?thesis
    using assms(3,5) by (auto dest: inj_onD)
qed

lemma cleanup_table2:
  "db_cleanup_old_notes mini_extern no_faults 86400000060 1 table2 =
     Some (Ok 1, table2\<lparr>tbl_rows := [row2]\<rparr>)"
  by (simp add: db_cleanup_old_notes_def mini_extern_def i64_of_u32_def sql_delete_older_def Let_def
      table2_def row1_def row2_def u64_or_zero_def i64_or_zero_def i64_try_usize_def u64_try_i64_def)

theorem seq_is_never_reused_witness:
  "\<exists>t' r'. (db_step mini_extern grpc_config_default)\<^sup>*\<^sup>* table2 t' \<and> row1 \<notin> set (tbl_rows t')
     \<and> r' \<in> set (tbl_rows t') \<and> row_key r' = 2 \<and> row2 = r'"
proof -
  let ?t = "table2\<lparr>tbl_rows := [row2]\<rparr>"
  have run: "(db_step mini_extern grpc_config_default)\<^sup>*\<^sup>* table2 ?t"
    by (rule r_into_rtranclp) (rule db_step.cleanup [OF cleanup_table2])
  have "row2 = row2"
    by (rule seq_is_never_reused [OF table2_ok run]) (simp_all add: table2_def)
  with run show ?thesis
    by (intro exI [of _ ?t] exI [of _ row2]) (simp add: row1_def row2_def)
qed

text \<open>
  C25. The cleanup deletes exactly the notes older than the retention period and returns how many
  they were, keeping the others, their order and the high-water mark of \<open>seq\<close>; if it fails,
  nothing is deleted.
\<close>

theorem cleanup_deletes_exactly_older:
  assumes "db_ok x t" and "db_cleanup_old_notes x f now days t = Some (r, t')"
  shows "case r of
      Err e \<Rightarrow> t' = t
    | Ok k \<Rightarrow> \<exists>cutoff. ts_minus_days x now (i64_of_u32 days) = Some cutoff
        \<and> tbl_rows t' = filter (\<lambda>q. sint (ts_micros x cutoff) \<le> sint (nr_created_at q)) (tbl_rows t)
        \<and> tbl_seq t' = tbl_seq t
        \<and> uint k + int (length (tbl_rows t')) = int (length (tbl_rows t))"
proof (cases r)
  case (Err e)
  then show ?thesis
    using db_cleanup_ErrD assms(2) by simp
next
  case (Ok k)
  with assms(2) have s: "db_cleanup_old_notes x f now days t = Some (Ok k, t')"
    by simp
  obtain cutoff where c: "ts_minus_days x now (i64_of_u32 days) = Some cutoff"
    "t' = snd (sql_delete_older (ts_micros x cutoff) t)"
    "k = u64_or_zero (i64_or_zero (fst (sql_delete_older (ts_micros x cutoff) t)))"
    using db_cleanup_OkD [OF s] .
  have b: "fst (sql_delete_older (ts_micros x cutoff) t) < 2 ^ 63"
    using table_ok_length_bound [OF db_ok_table [OF assms(1)]]
      sql_delete_older_count [of "ts_micros x cutoff" t] by linarith
  have "uint k = int (fst (sql_delete_older (ts_micros x cutoff) t))"
    unfolding c(3) by (rule uint_count [OF b])
  then have "uint k + int (length (tbl_rows t')) = int (length (tbl_rows t))"
    using sql_delete_older_count [of "ts_micros x cutoff" t] by (simp add: c(2) del: sql_delete_older_simps)
  then show ?thesis
    using Ok c(1,2) by (simp add: not_less)
qed

theorem cleanup_deletes_exactly_older_witness:
  "\<exists>cutoff. ts_minus_days mini_extern 86400000060 (i64_of_u32 1) = Some cutoff
    \<and> [row2] = filter (\<lambda>q. sint (ts_micros mini_extern cutoff) \<le> sint (nr_created_at q)) (tbl_rows table2)
    \<and> uint (1 :: u64) + int (length [row2]) = int (length (tbl_rows table2))"
  using cleanup_deletes_exactly_older [OF table2_ok cleanup_table2] by auto

section \<open>Statistics and existence\<close>

text \<open>
  The reading calls report the table: a \<open>stats\<close> response holds the number of stored notes and
  of their distinct tags (and no per-tag figures), without overflow; \<open>note_exists\<close> answers whether
  a stored note has the identifier.
\<close>

theorem stats_and_existence_report_table:
  assumes "db_ok x t"
  shows "(\<forall>resp. stats f t = Ok resp \<longrightarrow>
      uint (sts_total_notes resp) = int (length (tbl_rows t))
      \<and> uint (sts_total_tags resp) = int (card (nr_tag ` set (tbl_rows t)))
      \<and> sts_notes_per_tag resp = [])
    \<and> (\<forall>b. db_note_exists f i t = Ok b \<longrightarrow> b = (i \<in> nr_id ` set (tbl_rows t)))"
proof -
  have g: "p = (u64_or_zero (sql_count t), u64_or_zero (sql_count_distinct_tag t))" if "db_get_stats f t = Ok p" for p
    using that db_get_stats_OkD by (cases p) blast
  have "uint (sts_total_notes resp) = int (length (tbl_rows t))
      \<and> uint (sts_total_tags resp) = int (card (nr_tag ` set (tbl_rows t)))
      \<and> sts_notes_per_tag resp = []" if "stats f t = Ok resp" for resp
    using that sql_count_values [OF db_ok_table [OF assms]]
    by (auto simp: stats_def split: result.splits prod.splits dest!: g)
  then show ?thesis
    using db_note_exists_OkD [OF db_ok_table [OF assms]] by blast
qed

theorem stats_and_existence_report_table_witness:
  "stats no_faults table2 = Ok \<lparr>sts_total_notes = 2, sts_total_tags = 2, sts_notes_per_tag = [], sts_version = CARGO_PKG_VERSION\<rparr>
   \<and> uint (2 :: u64) = int (length (tbl_rows table2))"
proof -
  have s: "stats no_faults table2 = Ok \<lparr>sts_total_notes = 2, sts_total_tags = 2, sts_notes_per_tag = [], sts_version = CARGO_PKG_VERSION\<rparr>"
    by (simp add: stats_def db_get_stats_def sql_count_def sql_count_distinct_tag_def example_rows
        u64_or_zero_def u64_try_i64_def)
  from conjunct1 [OF stats_and_existence_report_table [OF table2_ok]] s show ?thesis
    by fastforce
qed

section \<open>Conversions between notes and rows\<close>

text \<open>
  A stored note survives its row. The row \<open>store_note\<close> writes for a note converts back to the
  note: the same header, details and block number, the row's \<open>seq\<close>, and a creation time that is
  the same to the microsecond.
\<close>

theorem note_row_roundtrip:
  assumes "codec_ok x" and "clock_ok x"
  shows "\<exists>n'. stored_of_row x (row_of_new s (new_note_of_stored x n)) = Ok n'
    \<and> sn_header n' = sn_header n \<and> sn_details n' = sn_details n \<and> sn_seq n' = s
    \<and> sn_after_block_num n' = sn_after_block_num n
    \<and> ts_micros x (sn_created_at n') = ts_micros x (sn_created_at n)"
  using stored_of_written_row [OF assms, of n s] by force

theorem note_row_roundtrip_witness:
  "\<exists>n'. stored_of_row mini_extern (row_of_new 9 (new_note_of_stored mini_extern
      \<lparr>sn_header = (7, 3), sn_details = [1, 2], sn_created_at = 50, sn_seq = 0, sn_after_block_num = Some 4294967295\<rparr>)) = Ok n'
    \<and> sn_after_block_num n' = Some 4294967295"
  using note_row_roundtrip [OF mini_codec_ok mini_clock_ok, of 9
    "\<lparr>sn_header = (7, 3), sn_details = [1, 2], sn_created_at = 50, sn_seq = 0, sn_after_block_num = Some 4294967295\<rparr>"]
  by auto

text \<open>
  C37. A row that no node wrote is refused, not truncated: conversion fails with a deserialization
  error exactly when the creation time is out of the calendar's range, the header does not parse,
  or the block number column is negative or above the largest 32-bit number.
\<close>

theorem row_conversion_fails_exactly:
  "(case stored_of_row x r of
      Ok n \<Rightarrow> ts_from_micros x (nr_created_at r) \<noteq> None \<and> is_ok (hdr_read x (nr_header r))
        \<and> (case nr_after_block_num r of None \<Rightarrow> True | Some b \<Rightarrow> 0 \<le> sint b \<and> sint b < 2 ^ 32)
    | Err e \<Rightarrow> (\<exists>m. e = Deserialization m)
        \<and> (ts_from_micros x (nr_created_at r) = None \<or> (\<exists>d. hdr_read x (nr_header r) = Err d)
           \<or> (case nr_after_block_num r of None \<Rightarrow> False | Some b \<Rightarrow> sint b < 0 \<or> 2 ^ 32 \<le> sint b)))"
  by (cases "ts_from_micros x (nr_created_at r)"; cases "hdr_read x (nr_header r)"; cases "nr_after_block_num r")
    (auto simp: stored_of_row_def u32_try_i64_def not_le not_less)

section \<open>Durations\<close>

text \<open>
  Every successful request is measured twice. The timer that \<open>finish\<close> has reported is dropped
  at the end of the handler and reports again: a successful send adds a duration labelled \<open>ok\<close> and
  one labelled \<open>dropped\<close> to its histogram, so the histogram counts it twice and its \<open>dropped\<close> label
  does not tell failures apart; a send the guards refuse after the timer started adds one.
\<close>

theorem successful_send_is_measured_twice:
  assumes "send_note x cfg f now req t tel = (r, t', tel')" and "snr_note req \<noteq> None"
  shows "duration_records GrpcSendNoteDuration (tel_events tel') =
    duration_records GrpcSendNoteDuration (tel_events tel) @
      (case r of Ok a \<Rightarrow> [''ok'', ''dropped''] | Err s \<Rightarrow> [''dropped''])"
proof -
  have d: "duration_records GrpcSendNoteDuration (tel_events tel2) = duration_records GrpcSendNoteDuration (tel_events tel1)"
    if "db_store_note x f n u tel1 = (q, u', tel2)" for n u u' q tel1 tel2
    using that by (auto simp: db_store_note_def timer_defs Let_def split: prod.splits result.splits)
  show ?thesis
    using assms
    by (auto simp: send_note_def Let_def timer_defs
        split: option.splits prod.splits if_splits result.splits dest!: d)
qed

theorem successful_send_is_measured_twice_witness:
  "\<exists>tel'. send_note mini_extern grpc_config_default no_faults 50 req1 empty_table tel0 = (Ok SendNoteResponse, table1, tel')
     \<and> duration_records GrpcSendNoteDuration (tel_events tel') = [''ok'', ''dropped'']"
proof -
  obtain tel' where s: "send_note mini_extern grpc_config_default no_faults 50 req1 empty_table tel0 =
      (Ok SendNoteResponse, table1, tel')"
    using send_req1 by blast
  from successful_send_is_measured_twice [OF this] s show ?thesis
    by (simp add: req1_def tel0_def)
qed

end
