(* ===== verification/Mailbox.thy ===== *)
theory Mailbox
  imports StoreProps2
begin

text \<open>
  The abstract contract of the store: a mailbox of mails under increasing numbers, with sending,
  fetching above a cursor and expiry, in unbounded integers and without rows, codecs or errors;
  and the refinement of it by the handlers.
\<close>

section \<open>The mailbox\<close>

record mail =
  ml_number :: int
  ml_id :: bytes
  ml_tag :: u32
  ml_time :: int
  ml_note :: transport_note

record mailbox =
  mb_mails :: "mail list"
  mb_last :: int

definition mb_send :: "bytes \<Rightarrow> u32 \<Rightarrow> int \<Rightarrow> transport_note \<Rightarrow> mailbox \<Rightarrow> mailbox option" where
  "mb_send i tag time pnote mb =
     (if i \<in> ml_id ` set (mb_mails mb) then None
      else Some \<lparr>mb_mails = mb_mails mb @ [\<lparr>ml_number = mb_last mb + 1, ml_id = i, ml_tag = tag,
                                             ml_time = time, ml_note = pnote\<rparr>],
                 mb_last = mb_last mb + 1\<rparr>)"

definition mb_fetch :: "u32 set \<Rightarrow> int \<Rightarrow> mailbox \<Rightarrow> mail list" where
  "mb_fetch tags c mb = take 500 (filter (\<lambda>m. ml_tag m \<in> tags \<and> c < ml_number m) (mb_mails mb))"

definition mb_expire :: "int \<Rightarrow> mailbox \<Rightarrow> mailbox" where
  "mb_expire cutoff mb = mb\<lparr>mb_mails := filter (\<lambda>m. cutoff \<le> ml_time m) (mb_mails mb)\<rparr>"

section \<open>Abstraction\<close>

definition mail_of_row :: "note_row \<Rightarrow> mail" where
  "mail_of_row r = \<lparr>ml_number = row_key r, ml_id = nr_id r, ml_tag = ucast (nr_tag r),
                    ml_time = sint (nr_created_at r), ml_note = row_transport r\<rparr>"

definition mailbox_of :: "notes_table \<Rightarrow> mailbox" where
  "mailbox_of t = \<lparr>mb_mails = map mail_of_row (tbl_rows t), mb_last = sint (tbl_seq t)\<rparr>"

lemma mail_of_row_simps [simp]:
  "ml_number (mail_of_row r) = row_key r" "ml_id (mail_of_row r) = nr_id r"
  "ml_tag (mail_of_row r) = ucast (nr_tag r)" "ml_time (mail_of_row r) = sint (nr_created_at r)"
  "ml_note (mail_of_row r) = row_transport r"
  by (simp_all add: mail_of_row_def)

lemma ucast_tag [simp]: "ucast (i64_of_u32 w) = w"
  by (simp add: i64_of_u32_def ucast_down_ucast_id is_down_def source_size target_size)

lemma well_formed_tag:
  assumes "well_formed_row x r"
  shows "nr_tag r \<in> i64_of_u32 ` T \<longleftrightarrow> ucast (nr_tag r) \<in> T"
proof -
  obtain n where r: "r = row_of_new (nr_seq r) (new_note_of_stored x n)"
    using assms by (auto simp: well_formed_row_def)
  have "nr_tag r = i64_of_u32 (hdr_tag x (sn_header n))"
    by (subst r) (simp add: new_note_of_stored_def)
  then show ?thesis
    by (auto simp: image_iff)
qed

lemma filter_mails:
  assumes "db_ok x t"
  shows "filter (\<lambda>m. ml_tag m \<in> set tags \<and> c < ml_number m) (mb_mails (mailbox_of t)) =
    map mail_of_row (filter (\<lambda>r. has_tag tags r \<and> c < row_key r) (tbl_rows t))"
proof -
  have "filter (\<lambda>r. ucast (nr_tag r) \<in> set tags \<and> c < row_key r) (tbl_rows t) =
      filter (\<lambda>r. has_tag tags r \<and> c < row_key r) (tbl_rows t)"
    using assms well_formed_tag by (intro filter_cong) (auto simp: db_ok_def)
  then show ?thesis
    by (simp add: mailbox_of_def filter_map comp_def)
qed

section \<open>Refinement\<close>

lemma send_note_refines:
  assumes "db_ok x t" and "sint (tbl_seq t) < 2 ^ 63 - 1"
    and "accepted_note x cfg now req = Some n" and "send_note x cfg no_faults now req t tel = (r, t', tel')"
  shows "case mb_send (hdr_id x (sn_header n)) (hdr_tag x (sn_header n)) (sint (ts_micros x now))
       (transport_of_stored x n) (mailbox_of t) of
      None \<Rightarrow> \<not> is_ok r \<and> mailbox_of t' = mailbox_of t
    | Some mb \<Rightarrow> is_ok r \<and> mailbox_of t' = mb"
proof -
  obtain p :: transport_note and h where p: "hdr_read x (tn_header p) = Ok h"
      "n = \<lparr>sn_header = h, sn_details = tn_details p, sn_created_at = now, sn_seq = 0,
            sn_after_block_num = tn_after_block_num p\<rparr>"
    by (rule accepted_noteD [OF assms(3)]) (rule that)
  have ids: "ml_id ` set (mb_mails (mailbox_of t)) = nr_id ` set (tbl_rows t)"
    by (auto simp: mailbox_of_def image_image)
  have i: "nn_id (new_note_of_stored x n) = hdr_id x (sn_header n)"
    by (simp add: new_note_of_stored_def)
  have res: "fst (send_note x cfg no_faults now req t tel) = r"
    using assms(4) by simp
  show ?thesis
  proof (cases "hdr_id x (sn_header n) \<in> nr_id ` set (tbl_rows t)")
    case True
    then obtain k m where "sql_insert (new_note_of_stored x n) t = Err (DieselDatabaseError k m)"
      using sql_insert_duplicate [of "new_note_of_stored x n" t] i by auto
    then obtain e where e: "r = Err e"
      using send_note_no_faults_accepted [OF assms(3), of t tel] res by auto
    have "t' = t"
      by (rule send_note_ErrD [OF assms(4) [unfolded e]])
    with True e show ?thesis
      by (simp add: mb_send_def ids)
  next
    case False
    then obtain u where u: "sql_insert (new_note_of_stored x n) t = Ok u"
      using sql_insert_fresh [OF db_ok_table [OF assms(1)] _ assms(2)] i by metis
    then have r: "r = Ok SendNoteResponse"
      using send_note_no_faults_accepted [OF assms(3), of t tel] res by simp
    have s: "tbl_rows t' = tbl_rows t @ [row_of_new (tbl_seq t + 1) (new_note_of_stored x n)]"
        "tbl_seq t' = tbl_seq t + 1"
      using send_note_OkD [OF assms(4) [unfolded r]] sql_insert_OkD [OF db_ok_table [OF assms(1)]]
        seq_plus_one assms(3) by (metis option.inject)+
    have q: "sint (tbl_seq t + 1) = sint (tbl_seq t) + 1"
      using sql_insert_OkD [OF db_ok_table [OF assms(1)] u] seq_plus_one by metis
    have "row_transport (row_of_new (tbl_seq t + 1) (new_note_of_stored x n)) = transport_of_stored x n"
      by (cases "sn_after_block_num n")
        (simp_all add: row_transport_def transport_of_stored_def new_note_of_stored_def)
    then have "mail_of_row (row_of_new (tbl_seq t + 1) (new_note_of_stored x n)) =
        \<lparr>ml_number = sint (tbl_seq t) + 1, ml_id = hdr_id x (sn_header n),
         ml_tag = hdr_tag x (sn_header n), ml_time = sint (ts_micros x now), ml_note = transport_of_stored x n\<rparr>"
      using q p(2) by (simp add: mail_of_row_def) (simp add: new_note_of_stored_def)
    then show ?thesis
      using False r s q by (simp add: mb_send_def ids mailbox_of_def image_image)
  qed
qed

lemma fetch_notes_refines:
  assumes "db_ok x t" "codec_ok x" "clock_ok x" and "length tags \<le> 128" and "c \<le> LEGACY_CURSOR_THRESHOLD"
  shows "\<exists>c'. fst (fetch_notes x no_faults \<lparr>fnr_tags = tags, fnr_cursor = c\<rparr> t tel) =
      Ok \<lparr>fnp_notes = map ml_note (mb_fetch (set tags) (uint c) (mailbox_of t)), fnp_cursor = c'\<rparr>
    \<and> uint c' = foldr max (map ml_number (mb_fetch (set tags) (uint c) (mailbox_of t))) (uint c)"
proof -
  have "mb_fetch (set tags) (uint c) (mailbox_of t) =
      map mail_of_row (query_page tags (uint c) t)"
    unfolding mb_fetch_def filter_mails [OF assms(1)] query_page_def by (simp add: take_map)
  moreover have v: "cursor_value c = uint c"
    using assms(5) by (simp add: cursor_value_def flip: not_le)
  let ?req = "\<lparr>fnr_tags = tags, fnr_cursor = c\<rparr>"
  obtain resp tel' where r: "fetch_notes x no_faults ?req t tel = (Ok resp, tel')"
    using fetch_notes_no_faults_Ok [OF assms(1-3), of ?req tel] assms(4) by auto
  moreover have "page_end d rows = foldr max (map row_key rows) d" for d rows
    by (rule page_end_foldr)
  ultimately show ?thesis
    using fetch_notes_OkD [OF assms(1,2) r]
    by (intro exI [of _ "fnp_cursor resp"]) (simp add: v comp_def)
qed

lemma cleanup_refines:
  assumes "db_ok x t" and "ts_minus_days x now (i64_of_u32 days) = Some cutoff"
    and "db_cleanup_old_notes x no_faults now days t = Some (r, t')"
  shows "is_ok r \<and> mailbox_of t' = mb_expire (sint (ts_micros x cutoff)) (mailbox_of t)"
proof -
  obtain k where r: "r = Ok k"
    using assms(2,3) by (auto simp: db_cleanup_old_notes_def Let_def case_prod_beta)
  have "t' = snd (sql_delete_older (ts_micros x cutoff) t)"
    using db_cleanup_OkD [OF assms(3) [unfolded r]] assms(2) by (metis option.inject)
  then show ?thesis
    using r by (simp add: mailbox_of_def mb_expire_def filter_map comp_def not_less)
qed

end
