(* ===== verification/BTree.thy ===== *)
theory BTree
  imports Prelude
begin

text \<open>
  Rust's \<open>BTreeMap\<close>, as the streamer uses it: lookup, insertion, removal and iteration in key
  order. A map is the list of its entries, in strictly increasing order of their keys.
\<close>

section \<open>The interface\<close>

locale ordered_map =
  fixes empty :: "'m"
    and get :: "'m \<Rightarrow> 'k::linorder \<Rightarrow> 'v option"
    and insert :: "'k \<Rightarrow> 'v \<Rightarrow> 'm \<Rightarrow> 'm"
    and remove :: "'k \<Rightarrow> 'm \<Rightarrow> 'm"
    and entries :: "'m \<Rightarrow> ('k \<times> 'v) list"
    and invar :: "'m \<Rightarrow> bool"
  assumes invar_empty: "invar empty"
    and invar_insert: "invar m \<Longrightarrow> invar (insert k v m)"
    and invar_remove: "invar m \<Longrightarrow> invar (remove k m)"
    and get_empty: "get empty k = None"
    and get_insert: "invar m \<Longrightarrow> get (insert k v m) k' = (if k' = k then Some v else get m k')"
    and get_remove: "invar m \<Longrightarrow> get (remove k m) k' = (if k' = k then None else get m k')"
    and entries_sorted: "invar m \<Longrightarrow> sorted_wrt (<) (map fst (entries m))"
    and get_entries: "invar m \<Longrightarrow> get m k = map_of (entries m) k"
begin

lemma entries_distinct: "invar m \<Longrightarrow> distinct (map fst (entries m))"
  using entries_sorted strict_sorted_iff by blast

lemma in_entries_iff: "invar m \<Longrightarrow> (k, v) \<in> set (entries m) \<longleftrightarrow> get m k = Some v"
  using entries_distinct by (simp add: get_entries map_of_eq_Some_iff)

lemma in_entries_insert:
  "invar m \<Longrightarrow> (k', v') \<in> set (entries (insert k v m)) \<longleftrightarrow>
     (k' = k \<and> v' = v) \<or> (k' \<noteq> k \<and> (k', v') \<in> set (entries m))"
  by (auto simp: in_entries_iff invar_insert get_insert)

lemma in_entries_remove:
  "invar m \<Longrightarrow> (k', v') \<in> set (entries (remove k m)) \<longleftrightarrow> k' \<noteq> k \<and> (k', v') \<in> set (entries m)"
  by (auto simp: in_entries_iff invar_remove get_remove)

lemma no_entries_iff: "invar m \<Longrightarrow> entries m = [] \<longleftrightarrow> (\<forall>k. get m k = None)"
proof
  assume i: "invar m" and g: "\<forall>k. get m k = None"
  have "e \<notin> set (entries m)" for e
    using i g by (cases e) (simp add: in_entries_iff)
  then show "entries m = []"
    by (cases "entries m") auto
qed (simp add: get_entries)

end

section \<open>Sorted lists of entries\<close>

type_synonym ('k, 'v) btree = "('k \<times> 'v) list"

definition bt_ok :: "('k::linorder, 'v) btree \<Rightarrow> bool" where
  "bt_ok m \<longleftrightarrow> sorted_wrt (<) (map fst m)"

definition bt_get :: "('k::linorder, 'v) btree \<Rightarrow> 'k \<Rightarrow> 'v option" where
  "bt_get m k = map_of m k"

fun bt_insert :: "'k::linorder \<Rightarrow> 'v \<Rightarrow> ('k, 'v) btree \<Rightarrow> ('k, 'v) btree" where
  "bt_insert k v [] = [(k, v)]"
| "bt_insert k v ((k', v') # m) =
     (if k < k' then (k, v) # (k', v') # m
      else if k = k' then (k, v) # m
      else (k', v') # bt_insert k v m)"

definition bt_remove :: "'k::linorder \<Rightarrow> ('k, 'v) btree \<Rightarrow> ('k, 'v) btree" where
  "bt_remove k m = filter (\<lambda>e. fst e \<noteq> k) m"

lemma set_bt_insert: "fst ` set (bt_insert k v m) = insert k (fst ` set m)"
  by (induction k v m rule: bt_insert.induct) auto

lemma bt_ok_insert: "bt_ok m \<Longrightarrow> bt_ok (bt_insert k v m)"
proof (induction k v m rule: bt_insert.induct)
  case (1 k v)
  then show ?case by (simp add: bt_ok_def)
next
  case (2 k v k' v' m)
  have s: "sorted_wrt (<) (map fst m)" "\<forall>j \<in> fst ` set m. k' < j"
    using 2(2) by (auto simp: bt_ok_def)
  then show ?case
    using 2(1) set_bt_insert [of k v m] by (fastforce simp: bt_ok_def)
qed

lemma bt_ok_remove: "bt_ok m \<Longrightarrow> bt_ok (bt_remove k m)"
  unfolding bt_ok_def bt_remove_def by (rule sorted_wrt_map_filter)

lemma bt_get_insert: "bt_get (bt_insert k v m) k' = (if k' = k then Some v else bt_get m k')"
  by (induction k v m rule: bt_insert.induct) (auto simp: bt_get_def)

lemma bt_get_remove: "bt_get (bt_remove k m) k' = (if k' = k then None else bt_get m k')"
  by (induction m) (auto simp: bt_get_def bt_remove_def)

interpretation btree: ordered_map "[]" bt_get bt_insert bt_remove "\<lambda>m. m" bt_ok
  by unfold_locales
    (simp_all add: bt_ok_insert bt_ok_remove bt_get_insert bt_get_remove, simp_all add: bt_ok_def bt_get_def)

lemma bt_get_Nil [simp]: "bt_get [] k = None"
  by (simp add: bt_get_def)

lemma bt_ok_Nil [simp]: "bt_ok []"
  by (simp add: bt_ok_def)

lemma bt_insert_nonempty [simp]: "bt_insert k v m \<noteq> []"
  by (induction k v m rule: bt_insert.induct) auto

lemma bt_remove_absent: "bt_get m k = None \<Longrightarrow> bt_remove k m = m"
  by (induction m) (auto simp: bt_get_def bt_remove_def split: if_splits)

lemma bt_remove_subset: "set (bt_remove k m) \<subseteq> set m"
  by (auto simp: bt_remove_def)

lemma bt_get_SomeD: "bt_get m k = Some v \<Longrightarrow> (k, v) \<in> set m"
  unfolding bt_get_def by (rule map_of_SomeD)

text \<open>Rewriting the values of a map in place leaves its keys and their order alone.\<close>

lemma bt_ok_map_values: "bt_ok (map (\<lambda>(k, v). (k, g k v)) m) = bt_ok m"
  by (simp add: bt_ok_def comp_def case_prod_beta)

lemma bt_get_map_values: "bt_get (map (\<lambda>(k, v). (k, g k v)) m) k = map_option (g k) (bt_get m k)"
  by (induction m) (auto simp: bt_get_def)

end
