(* ===== verification/Streamer.thy ===== *)
theory Streamer
  imports PullClient BTree
begin

text \<open>
  The streaming task (crates/node/src/node/grpc/streaming.rs) and the \<open>stream_notes\<close> handler that
  feeds it: the manager with its tags, subscriptions and stored wakers, the query over all tags,
  the forwarding to subscribers, the control messages, the loop, and the subscriber's side.

  Tokio's channels are not under src/. What a bounded channel answers is a function the
  definitions take: \<open>tx ch pg s\<close> tries to send \<open>pg\<close> on the channel with handle \<open>ch\<close> when the
  channels are in the state \<open>s\<close>, and returns whether the channel took it and the new state. A
  waker is an opaque handle. The instants of the subscription log are nanoseconds of the
  monotonic clock.
\<close>

section \<open>State\<close>

type_synonym sub_id = u64
type_synonym waker = nat
type_synonym chan = nat
type_synonym transport_notes_pg = "transport_note list \<times> u64"

record sub_entry =
  se_tx :: chan
  se_created_at :: nat

record tag_data =
  td_cursor :: u64
  td_subs :: "(sub_id, sub_entry) btree"

record manager =
  mg_tags :: "(u32, tag_data) btree"
  mg_wakers :: "(sub_id, waker) btree"

record subface =
  sf_id :: sub_id
  sf_tag :: u32
  sf_tx :: chan

datatype streamer_message =
    AddSub subface
  | RemoveSub sub_id u32 string
  | WakerMsg sub_id waker
  | Shutdown

text \<open>The lifecycle events of the log.\<close>

datatype sub_log =
    SubscriptionAdded sub_id nat
  | SubscriptionRemoved sub_id nat nat string

section \<open>The manager's operations\<close>

definition manager_new :: manager where
  "manager_new = \<lparr>mg_tags = [], mg_wakers = []\<rparr>"

definition tag_data_new :: tag_data where
  "tag_data_new = \<lparr>td_cursor = 0, td_subs = []\<rparr>"

text \<open>\<open>self.tags.values().map(|td| td.subs.len()).sum()\<close>.\<close>

definition active_subs :: "manager \<Rightarrow> nat" where
  "active_subs m = sum_list (map (\<lambda>(t, td). length (td_subs td)) (mg_tags m))"

definition update_waker :: "sub_id \<Rightarrow> waker \<Rightarrow> manager \<Rightarrow> manager" where
  "update_waker i w m = m\<lparr>mg_wakers := bt_insert i w (mg_wakers m)\<rparr>"

definition add_sub :: "nat \<Rightarrow> subface \<Rightarrow> manager \<Rightarrow> manager \<times> sub_log list" where
  "add_sub now sub m =
     (let entry = (case bt_get (mg_tags m) (sf_tag sub) of None \<Rightarrow> tag_data_new | Some td \<Rightarrow> td);
          entry = entry\<lparr>td_subs := bt_insert (sf_id sub)
                     \<lparr>se_tx = sf_tx sub, se_created_at = now\<rparr> (td_subs entry)\<rparr>;
          m = m\<lparr>mg_tags := bt_insert (sf_tag sub) entry (mg_tags m)\<rparr>
      in (m, [SubscriptionAdded (sf_id sub) (active_subs m)]))"

definition remove_sub :: "nat \<Rightarrow> sub_id \<Rightarrow> u32 \<Rightarrow> string \<Rightarrow> manager \<Rightarrow> manager \<times> sub_log list" where
  "remove_sub now i tag reason m =
     (case bt_get (mg_tags m) tag of
        None \<Rightarrow> (m, [])
      | Some td \<Rightarrow>
          let removed_at = map_option se_created_at (bt_get (td_subs td) i);
              subs = bt_remove i (td_subs td);
              m = m\<lparr>mg_tags :=
                     (if subs = [] then bt_remove tag (mg_tags m)
                      else bt_insert tag (td\<lparr>td_subs := subs\<rparr>) (mg_tags m))\<rparr>
          in (m, case removed_at of
                   None \<Rightarrow> []
                 | Some created_at \<Rightarrow>
                     [SubscriptionRemoved i (active_subs m) ((now - created_at) div 1000000000) reason]))"

text \<open>
  \<open>query_updates\<close>, after its sleep: one query per tracked tag, in tag order, each with the tag's
  cursor. The queries are separate transactions, so the table may differ from one to the next:
  \<open>dbs\<close> and \<open>fs\<close> give the table and the failures each tag's query meets. The first error ends
  the round.
\<close>

fun query_tags ::
  "('h, 't) extern \<Rightarrow> (u32 \<Rightarrow> faults) \<Rightarrow> (u32 \<Rightarrow> notes_table) \<Rightarrow> (u32, tag_data) btree \<Rightarrow> telemetry
     \<Rightarrow> ((u32 \<times> transport_notes_pg) list, node_error) result \<times> telemetry" where
  "query_tags x fs dbs [] tel = (Ok [], tel)"
| "query_tags x fs dbs ((tag, td) # tags) tel =
     (case db_fetch_notes x (fs tag) tag (td_cursor td) (dbs tag) tel of
        (Err e, tel) \<Rightarrow> (Err (ErrDatabase e), tel)
      | (Ok snotes, tel) \<Rightarrow>
          (case advance_cursor (td_cursor td) (map sn_seq snotes) of
             Err s \<Rightarrow> (Err (node_error_of_status s), tel)
           | Ok cursor \<Rightarrow>
               (let pnotes = map (transport_of_stored x) snotes;
                    (rest, tel) = query_tags x fs dbs tags tel
                in (res_bind rest (\<lambda>updates.
                      Ok (if pnotes = [] then updates else (tag, (pnotes, cursor)) # updates)), tel))))"

definition query_updates ::
  "('h, 't) extern \<Rightarrow> (u32 \<Rightarrow> faults) \<Rightarrow> (u32 \<Rightarrow> notes_table) \<Rightarrow> manager \<Rightarrow> telemetry
     \<Rightarrow> ((u32 \<times> transport_notes_pg) list, node_error) result \<times> telemetry" where
  "query_updates x fs dbs m tel = query_tags x fs dbs (mg_tags m) tel"

text \<open>\<open>update_timestamps\<close>: each updated tag's cursor moves to the update's.\<close>

fun update_timestamps :: "(u32 \<times> transport_notes_pg) list \<Rightarrow> manager \<Rightarrow> manager" where
  "update_timestamps [] m = m"
| "update_timestamps ((tag, notes_pg) # rest) m =
     update_timestamps rest
       (case bt_get (mg_tags m) tag of
          None \<Rightarrow> m
        | Some td \<Rightarrow> m\<lparr>mg_tags := bt_insert tag (td\<lparr>td_cursor := snd notes_pg\<rparr>) (mg_tags m)\<rparr>)"

text \<open>
  \<open>forward_updates\<close>: what its loops carry is the waker map, the channels, the wakers woken so
  far and the subscriptions to remove.
\<close>

record 'c forward_state =
  fw_wakers :: "(sub_id, waker) btree"
  fw_chans :: 'c
  fw_woken :: "waker list"
  fw_remove :: "(sub_id \<times> u32) list"

definition forward_sub ::
  "(chan \<Rightarrow> transport_notes_pg \<Rightarrow> 'c \<Rightarrow> bool \<times> 'c) \<Rightarrow> u32 \<Rightarrow> transport_notes_pg
     \<Rightarrow> sub_id \<times> sub_entry \<Rightarrow> 'c forward_state \<Rightarrow> 'c forward_state" where
  "forward_sub tx tag pg sub s =
     (case bt_get (fw_wakers s) (fst sub) of
        None \<Rightarrow> s
      | Some waker \<Rightarrow>
          let s = s\<lparr>fw_wakers := bt_remove (fst sub) (fw_wakers s)\<rparr>;
              (sent, chans) = tx (se_tx (snd sub)) pg (fw_chans s);
              s = s\<lparr>fw_chans := chans\<rparr>
          in if sent then s\<lparr>fw_woken := fw_woken s @ [waker]\<rparr>
             else s\<lparr>fw_remove := fw_remove s @ [(fst sub, tag)]\<rparr>)"

definition forward_tag ::
  "(chan \<Rightarrow> transport_notes_pg \<Rightarrow> 'c \<Rightarrow> bool \<times> 'c) \<Rightarrow> (u32, tag_data) btree
     \<Rightarrow> u32 \<times> transport_notes_pg \<Rightarrow> 'c forward_state \<Rightarrow> 'c forward_state" where
  "forward_tag tx tags upd s =
     (case bt_get tags (fst upd) of
        None \<Rightarrow> s
      | Some td \<Rightarrow> fold (forward_sub tx (fst upd) (snd upd)) (td_subs td) s)"

fun remove_subs :: "nat \<Rightarrow> (sub_id \<times> u32) list \<Rightarrow> manager \<Rightarrow> manager \<times> sub_log list" where
  "remove_subs now [] m = (m, [])"
| "remove_subs now ((i, tag) # subs) m =
     (let (m, l) = remove_sub now i tag ''backpressure'' m;
          (m, l') = remove_subs now subs m
      in (m, l @ l'))"

definition forward_updates ::
  "(chan \<Rightarrow> transport_notes_pg \<Rightarrow> 'c \<Rightarrow> bool \<times> 'c) \<Rightarrow> nat \<Rightarrow> (u32 \<times> transport_notes_pg) list
     \<Rightarrow> manager \<Rightarrow> 'c \<Rightarrow> manager \<times> 'c \<times> waker list \<times> sub_log list" where
  "forward_updates tx now tag_notes m chans =
     (let s = fold (forward_tag tx (mg_tags m)) tag_notes
                \<lparr>fw_wakers = mg_wakers m, fw_chans = chans, fw_woken = [], fw_remove = []\<rparr>;
          (m, l) = remove_subs now (fw_remove s) (m\<lparr>mg_wakers := fw_wakers s\<rparr>)
      in (m, fw_chans s, fw_woken s, l))"

section \<open>The loop\<close>

text \<open>
  One \<open>tokio::select!\<close>: either the query completes, or a control message is received (and the
  query under way is dropped). \<open>Ok False\<close> ends the loop; an error is logged and the loop goes on.
\<close>

datatype select_branch = QueryReady | Received streamer_message

record 'c streamer_env =
  env_faults :: "u32 \<Rightarrow> faults"
  env_dbs :: "u32 \<Rightarrow> notes_table"
  env_tx :: "chan \<Rightarrow> transport_notes_pg \<Rightarrow> 'c \<Rightarrow> bool \<times> 'c"
  env_now :: nat

record 'c streamer_state =
  ss_manager :: manager
  ss_chans :: 'c
  ss_woken :: "waker list"
  ss_log :: "sub_log list"
  ss_tel :: telemetry

fun streamer_step ::
  "('h, 't) extern \<Rightarrow> 'c streamer_env \<Rightarrow> select_branch \<Rightarrow> 'c streamer_state
     \<Rightarrow> (bool, node_error) result \<times> 'c streamer_state" where
  "streamer_step x e QueryReady s =
     (case query_updates x (env_faults e) (env_dbs e) (ss_manager s) (ss_tel s) of
        (Err err, tel) \<Rightarrow> (Err err, s\<lparr>ss_tel := tel\<rparr>)
      | (Ok tag_notes, tel) \<Rightarrow>
          (let m = update_timestamps tag_notes (ss_manager s);
               (m, chans, woken, l) = forward_updates (env_tx e) (env_now e) tag_notes m (ss_chans s)
           in (Ok True, \<lparr>ss_manager = m, ss_chans = chans, ss_woken = ss_woken s @ woken,
                         ss_log = ss_log s @ l, ss_tel = tel\<rparr>)))"
| "streamer_step x e (Received (AddSub sub)) s =
     (let (m, l) = add_sub (env_now e) sub (ss_manager s)
      in (Ok True, s\<lparr>ss_manager := m, ss_log := ss_log s @ l\<rparr>))"
| "streamer_step x e (Received (RemoveSub i tag reason)) s =
     (let (m, l) = remove_sub (env_now e) i tag reason (ss_manager s)
      in (Ok True, s\<lparr>ss_manager := m, ss_log := ss_log s @ l\<rparr>))"
| "streamer_step x e (Received (WakerMsg i w)) s =
     (Ok True, s\<lparr>ss_manager := update_waker i w (ss_manager s)\<rparr>)"
| "streamer_step x e (Received Shutdown) s = (Ok False, s)"

text \<open>
  \<open>NoteStreamer::stream\<close> over the branches its iterations take, with what each finds in its
  environment; the flag tells whether the loop is still enabled.
\<close>

fun stream_loop ::
  "('h, 't) extern \<Rightarrow> ('c streamer_env \<times> select_branch) list \<Rightarrow> 'c streamer_state \<Rightarrow> bool \<times> 'c streamer_state" where
  "stream_loop x [] s = (True, s)"
| "stream_loop x ((e, b) # bs) s =
     (case streamer_step x e b s of
        (Ok True, s) \<Rightarrow> stream_loop x bs s
      | (Ok False, s) \<Rightarrow> (False, s)
      | (Err err, s) \<Rightarrow> stream_loop x bs s)"

section \<open>The subscriber's side\<close>

record sub =
  sub_sid :: sub_id
  sub_tag :: u32

text \<open>\<open>Sub::new\<close> and \<open>Subface::new\<close>; the channel ends a \<open>Sub\<close> holds are arguments of its operations.\<close>

definition sub_new :: "sub_id \<Rightarrow> u32 \<Rightarrow> sub" where
  "sub_new i tag = \<lparr>sub_sid = i, sub_tag = tag\<rparr>"

definition subface_new :: "sub_id \<Rightarrow> u32 \<Rightarrow> chan \<Rightarrow> subface" where
  "subface_new i tag tx = \<lparr>sf_id = i, sf_tag = tag, sf_tx = tx\<rparr>"

declare sub_new_def [simp] subface_new_def [simp]

datatype 'a poll = Ready 'a | Pending

text \<open>
  \<open>Sub::poll_next\<close>: \<open>recv\<close> is what polling the subscription's channel returned, \<open>ctl\<close> the attempt
  to send on the control channel.
\<close>

definition sub_poll_next ::
  "sub \<Rightarrow> transport_notes_pg option poll \<Rightarrow> (streamer_message \<Rightarrow> 'q \<Rightarrow> bool \<times> 'q) \<Rightarrow> waker \<Rightarrow> 'q
     \<Rightarrow> (stream_notes_update, status) result option poll \<times> 'q" where
  "sub_poll_next sub recv ctl waker q =
     (case recv of
        Ready (Some pgnotes) \<Rightarrow>
          (Ready (Some (Ok \<lparr>stu_notes = fst pgnotes, stu_cursor = snd pgnotes\<rparr>)), q)
      | Ready None \<Rightarrow> (Ready None, q)
      | Pending \<Rightarrow>
          (let (sent, q) = ctl (WakerMsg (sub_sid sub) waker) q
           in (if sent then Pending else Ready None, q)))"

text \<open>\<open>Drop for Sub\<close>: the attempt to have the manager remove the subscription.\<close>

definition sub_drop :: "sub \<Rightarrow> (streamer_message \<Rightarrow> 'q \<Rightarrow> bool \<times> 'q) \<Rightarrow> 'q \<Rightarrow> 'q" where
  "sub_drop sub ctl q = snd (ctl (RemoveSub (sub_sid sub) (sub_tag sub) ''client_disconnect'') q)"

text \<open>
  \<open>GrpcServer::stream_notes\<close>: \<open>i\<close> is the random subscription id, \<open>ch\<close> the handle of the new
  channel, \<open>why\<close> the rendered error of a failed send. On that error the subscription is dropped
  before the handler returns.
\<close>

definition stream_notes ::
  "stream_notes_request \<Rightarrow> sub_id \<Rightarrow> chan \<Rightarrow> (streamer_message \<Rightarrow> 'q \<Rightarrow> bool \<times> 'q) \<Rightarrow> string \<Rightarrow> 'q
     \<Rightarrow> (sub, status) result \<times> 'q" where
  "stream_notes request i ch ctl why q =
     (let tag = str_tag request;
          sub = sub_new i tag;
          subf = subface_new i tag ch;
          (sent, q) = ctl (AddSub subf) q
      in if sent then (Ok sub, q)
         else (Err (internal (''Failed sending internal streamer message: '' @ why)), sub_drop sub ctl q))"

text \<open>\<open>Drop for StreamerCtx\<close>: \<open>Shutdown\<close>, or the task is aborted when it cannot be sent.\<close>

definition streamer_ctx_drop :: "(streamer_message \<Rightarrow> 'q \<Rightarrow> bool \<times> 'q) \<Rightarrow> 'q \<Rightarrow> bool \<times> 'q" where
  "streamer_ctx_drop ctl q = (let (sent, q) = ctl Shutdown q in (\<not> sent, q))"

end
