(* ===== verification/StreamerFacts.thy ===== *)
theory StreamerFacts
  imports Streamer
begin

text \<open>
  Facts on the streaming task: the manager's invariant and its preservation by every branch of
  the loop, what a round of queries returns, and what forwarding it attempts on the channels.
\<close>

section \<open>The manager's invariant\<close>

text \<open>Maps are in key order, and no tag is tracked without a subscription.\<close>

definition mg_ok :: "manager \<Rightarrow> bool" where
  "mg_ok m \<longleftrightarrow> bt_ok (mg_tags m) \<and> bt_ok (mg_wakers m) \<and>
     (\<forall>t td. bt_get (mg_tags m) t = Some td \<longrightarrow> td_subs td \<noteq> [] \<and> bt_ok (td_subs td))"

lemma mg_okD:
  assumes "mg_ok m"
  shows "bt_ok (mg_tags m)" "bt_ok (mg_wakers m)"
    "bt_get (mg_tags m) t = Some td \<Longrightarrow> td_subs td \<noteq> []"
    "bt_get (mg_tags m) t = Some td \<Longrightarrow> bt_ok (td_subs td)"
  using assms by (auto simp: mg_ok_def)

lemma mg_ok_new: "mg_ok manager_new"
  by (simp add: mg_ok_def manager_new_def)

lemma update_waker_ok: "mg_ok m \<Longrightarrow> mg_ok (update_waker i w m)"
  by (simp add: mg_ok_def update_waker_def bt_ok_insert)

lemma add_sub_ok:
  assumes "mg_ok m"
  shows "mg_ok (fst (add_sub now sub m))"
  using mg_okD [OF assms]
  by (auto simp: mg_ok_def add_sub_def Let_def bt_ok_insert bt_get_insert tag_data_new_def
      split: option.splits)

lemma remove_sub_ok:
  assumes "mg_ok m"
  shows "mg_ok (fst (remove_sub now i t why m))"
  using mg_okD [OF assms]
  by (auto simp: mg_ok_def remove_sub_def Let_def bt_ok_insert bt_ok_remove bt_get_insert
      bt_get_remove split: option.splits)

lemma remove_subs_ok: "mg_ok m \<Longrightarrow> mg_ok (fst (remove_subs now subs m))"
proof (induction now subs m rule: remove_subs.induct)
  case (1 now m)
  then show ?case by simp
next
  case (2 now i t subs m)
  obtain m1 l1 where m1: "remove_sub now i t ''backpressure'' m = (m1, l1)"
    by fastforce
  then have "mg_ok m1"
    using remove_sub_ok [OF 2(2), of now i t "''backpressure''"] by simp
  then show ?case
    using 2(1) [OF refl m1 [symmetric]] m1 by (simp add: case_prod_beta)
qed

lemma update_timestamps_ok: "mg_ok m \<Longrightarrow> mg_ok (update_timestamps upd m)"
proof (induction upd m rule: update_timestamps.induct)
  case (1 m)
  then show ?case by simp
next
  case (2 t pg upd m)
  show ?case
  proof (cases "bt_get (mg_tags m) t")
    case None
    then show ?thesis
      using 2 by simp
  next
    case (Some td)
    have "mg_ok (m\<lparr>mg_tags := bt_insert t (td\<lparr>td_cursor := snd pg\<rparr>) (mg_tags m)\<rparr>)"
      using mg_okD [OF 2(2)] Some by (auto simp: mg_ok_def bt_ok_insert bt_get_insert)
    then show ?thesis
      using 2(1) Some by simp
  qed
qed

lemma forward_sub_wakers_ok:
  "bt_ok (fw_wakers s) \<Longrightarrow> bt_ok (fw_wakers (forward_sub tx t pg sub s))"
  by (auto simp: forward_sub_def Let_def bt_ok_remove split: option.splits prod.splits)

lemma forward_tag_wakers_ok:
  "bt_ok (fw_wakers s) \<Longrightarrow> bt_ok (fw_wakers (forward_tag tx tags upd s))"
proof -
  have "bt_ok (fw_wakers s) \<Longrightarrow> bt_ok (fw_wakers (fold (forward_sub tx t pg) subs s))" for t pg subs
    by (induction subs arbitrary: s) (auto intro: forward_sub_wakers_ok)
  then show "bt_ok (fw_wakers s) \<Longrightarrow> ?thesis"
    by (auto simp: forward_tag_def split: option.splits)
qed

lemma forward_updates_ok:
  assumes "mg_ok m"
  shows "mg_ok (fst (forward_updates tx now upd m chans))"
proof -
  have w: "bt_ok (fw_wakers s) \<Longrightarrow> bt_ok (fw_wakers (fold (forward_tag tx tags) upd s))" for tags s
    by (induction upd arbitrary: s) (auto intro: forward_tag_wakers_ok)
  let ?s = "fold (forward_tag tx (mg_tags m)) upd
      \<lparr>fw_wakers = mg_wakers m, fw_chans = chans, fw_woken = [], fw_remove = []\<rparr>"
  have "bt_ok (fw_wakers ?s)"
    by (rule w) (simp add: mg_okD(2) [OF assms])
  then have "mg_ok (m\<lparr>mg_wakers := fw_wakers ?s\<rparr>)"
    using assms by (simp add: mg_ok_def)
  then have "mg_ok (fst (remove_subs now (fw_remove ?s) (m\<lparr>mg_wakers := fw_wakers ?s\<rparr>)))"
    by (rule remove_subs_ok)
  then show ?thesis
    by (simp add: forward_updates_def Let_def case_prod_beta)
qed

lemma streamer_step_ok:
  assumes "mg_ok (ss_manager s)"
  shows "mg_ok (ss_manager (snd (streamer_step x e b s)))"
proof (cases b)
  case QueryReady
  show ?thesis
  proof (cases "query_updates x (env_faults e) (env_dbs e) (ss_manager s) (ss_tel s)")
    case (Pair r tel)
    show ?thesis
      using assms QueryReady Pair forward_updates_ok [OF update_timestamps_ok [OF assms]]
      by (cases r) (simp_all add: case_prod_beta Let_def)
  qed
next
  case (Received msg)
  show ?thesis
    using assms Received add_sub_ok [OF assms] remove_sub_ok [OF assms] update_waker_ok [OF assms]
    by (cases msg) (simp_all add: case_prod_beta)
qed

section \<open>Control messages\<close>

lemma add_sub_get:
  "bt_get (mg_tags (fst (add_sub now sub m))) t =
     (if t = sf_tag sub
      then Some \<lparr>td_cursor = (case bt_get (mg_tags m) t of None \<Rightarrow> 0 | Some td \<Rightarrow> td_cursor td),
                 td_subs = bt_insert (sf_id sub) \<lparr>se_tx = sf_tx sub, se_created_at = now\<rparr>
                   (case bt_get (mg_tags m) t of None \<Rightarrow> [] | Some td \<Rightarrow> td_subs td)\<rparr>
      else bt_get (mg_tags m) t)"
  by (auto simp: add_sub_def Let_def bt_get_insert tag_data_new_def split: option.splits)

lemma remove_sub_get:
  "bt_get (mg_tags (fst (remove_sub now i t why m))) t' =
     (if t' = t
      then (case bt_get (mg_tags m) t of
              None \<Rightarrow> None
            | Some td \<Rightarrow> if bt_remove i (td_subs td) = [] then None
                         else Some (td\<lparr>td_subs := bt_remove i (td_subs td)\<rparr>))
      else bt_get (mg_tags m) t')"
  by (auto simp: remove_sub_def Let_def bt_get_insert bt_get_remove split: option.splits)

lemma remove_sub_wakers [simp]: "mg_wakers (fst (remove_sub now i t why m)) = mg_wakers m"
  by (auto simp: remove_sub_def Let_def split: option.splits)

lemma remove_subs_wakers [simp]: "mg_wakers (fst (remove_subs now subs m)) = mg_wakers m"
proof (induction now subs m rule: remove_subs.induct)
  case (1 now m)
  then show ?case by simp
next
  case (2 now i t subs m)
  obtain m1 l1 where m1: "remove_sub now i t ''backpressure'' m = (m1, l1)"
    by fastforce
  then have "mg_wakers m1 = mg_wakers m"
    using remove_sub_wakers [of now i t "''backpressure''" m] by simp
  then show ?case
    using 2 [OF refl m1 [symmetric]] m1 by (simp add: case_prod_beta)
qed

section \<open>A round of queries\<close>

text \<open>What one tag's query reads, and the updates a successful round returns.\<close>

abbreviation tag_page :: "(u32 \<Rightarrow> notes_table) \<Rightarrow> u32 \<Rightarrow> tag_data \<Rightarrow> note_row list" where
  "tag_page dbs t td \<equiv> pull_page [t] (dbs t) (uint (td_cursor td))"

definition round_updates ::
  "(u32 \<Rightarrow> notes_table) \<Rightarrow> (u32, tag_data) btree \<Rightarrow> (u32 \<times> transport_notes_pg) list" where
  "round_updates dbs tags =
     map (\<lambda>(t, td). (t, (map row_transport (tag_page dbs t td),
                          word_of_int (page_end (uint (td_cursor td)) (tag_page dbs t td)))))
       (filter (\<lambda>(t, td). tag_page dbs t td \<noteq> []) tags)"

lemma db_fetch_notes_tag_OkD:
  assumes "db_ok x t" "codec_ok x" and "db_fetch_notes x f tag c t tel = (Ok ns, tel')"
  shows "map (transport_of_stored x) ns = map row_transport (pull_page [tag] t (uint c))"
    and "\<exists>d. advance_cursor c (map sn_seq ns) = Ok d \<and> uint d = page_end (uint c) (pull_page [tag] t (uint c))"
proof -
  let ?page = "pull_page [tag] t (uint c)"
  have c: "fetch_conversion x ?page = Ok ns"
    using db_fetch_notes_by_tags_OkD [OF db_ok_table [OF assms(1)]] assms(3)
    by (simp add: db_fetch_notes_def pull_page_cursor)
  have w: "well_formed_row x r" and p: "0 \<le> row_key r" if "r \<in> set ?page" for r
    using subsetD [OF pull_page_rows that] assms(1) table_okD(2) [OF db_ok_table [OF assms(1)], of r]
    by (auto simp: db_ok_def)
  have m: "map (transport_of_stored x) ns = map row_transport ?page" "map sn_seq ns = map nr_seq ?page"
    using fetch_conversion_transport [OF assms(2) w c] by auto
  show "map (transport_of_stored x) ns = map row_transport ?page"
    by (rule m(1))
  show "\<exists>d. advance_cursor c (map sn_seq ns) = Ok d \<and> uint d = page_end (uint c) ?page"
    by (rule advance_cursor_page [OF m(2) p])
qed

lemma query_tags_OkD:
  assumes "\<And>t. db_ok x (dbs t)" "codec_ok x" and "query_tags x fs dbs tags tel = (Ok upd, tel')"
  shows "upd = round_updates dbs tags"
  using assms(3)
proof (induction tags arbitrary: tel upd tel')
  case Nil
  then show ?case by (simp add: round_updates_def)
next
  case (Cons e tags)
  obtain t td where e: "e = (t, td)" by fastforce
  obtain ns tel1 d rest tel2 where q:
      "db_fetch_notes x (fs t) t (td_cursor td) (dbs t) tel = (Ok ns, tel1)"
      "advance_cursor (td_cursor td) (map sn_seq ns) = Ok d"
      "query_tags x fs dbs tags tel1 = (Ok rest, tel2)"
      "upd = (if map (transport_of_stored x) ns = [] then rest
              else (t, (map (transport_of_stored x) ns, d)) # rest)"
    using Cons.prems unfolding e
    by (auto simp: Let_def res_bind_Ok_iff split: prod.splits result.splits)
  note n = db_fetch_notes_tag_OkD [OF assms(1,2) q(1)]
  have "d = word_of_int (page_end (uint (td_cursor td)) (tag_page dbs t td))"
    using n(2) q(2) by (metis result.inject(1) word_of_int_uint)
  then show ?case
    using Cons.IH [OF q(3)] q(4) n(1) unfolding e by (auto simp: round_updates_def)
qed

lemma query_updates_OkD:
  assumes "\<And>t. db_ok x (dbs t)" "codec_ok x" and "query_updates x fs dbs m tel = (Ok upd, tel')"
  shows "upd = round_updates dbs (mg_tags m)"
  using query_tags_OkD [where dbs = dbs, OF assms(1,2)] assms(3) unfolding query_updates_def by blast

lemma round_updates_tags:
  assumes "bt_ok tags"
  shows "distinct (map fst (round_updates dbs tags))"
proof -
  have "map fst (round_updates dbs tags) = map fst (filter (\<lambda>(t, td). tag_page dbs t td \<noteq> []) tags)"
    by (simp add: round_updates_def comp_def case_prod_beta)
  moreover have "distinct (map fst tags)"
    using assms btree.entries_distinct by blast
  ultimately show ?thesis
    by (simp add: distinct_map_filter)
qed

lemma in_round_updates:
  "bt_ok tags \<Longrightarrow> (t, pg) \<in> set (round_updates dbs tags) \<longleftrightarrow>
     (\<exists>td. bt_get tags t = Some td \<and> tag_page dbs t td \<noteq> [] \<and>
       pg = (map row_transport (tag_page dbs t td),
             word_of_int (page_end (uint (td_cursor td)) (tag_page dbs t td))))"
  by (auto simp: round_updates_def image_iff Bex_def btree.in_entries_iff [symmetric])

lemma update_timestamps_get:
  assumes "distinct (map fst upd)"
  shows "bt_get (mg_tags (update_timestamps upd m)) t =
    (case map_of upd t of
       None \<Rightarrow> bt_get (mg_tags m) t
     | Some pg \<Rightarrow> map_option (\<lambda>td. td\<lparr>td_cursor := snd pg\<rparr>) (bt_get (mg_tags m) t))"
  using assms
proof (induction upd m rule: update_timestamps.induct)
  case (1 m)
  then show ?case by simp
next
  case (2 t' pg upd m)
  then have "map_of upd t' = None"
    by (simp add: map_of_eq_None_iff)
  with 2 show ?case
    by (auto simp: bt_get_insert split: option.splits)
qed

lemma update_timestamps_wakers [simp]: "mg_wakers (update_timestamps upd m) = mg_wakers m"
  by (induction upd m rule: update_timestamps.induct) (auto split: option.splits)

section \<open>Forwarding\<close>

text \<open>
  A channel state that records every attempt, with the channels of \<open>acc\<close> accepting: the attempts
  are what the code hands to the channels, in order.
\<close>

definition rec_tx :: "(chan \<Rightarrow> bool) \<Rightarrow> chan \<Rightarrow> transport_notes_pg
    \<Rightarrow> (chan \<times> transport_notes_pg) list \<Rightarrow> bool \<times> (chan \<times> transport_notes_pg) list" where
  "rec_tx acc ch pg sent = (acc ch, sent @ [(ch, pg)])"

text \<open>The subscriptions of a list that have a stored waker.\<close>

definition awake :: "(sub_id, waker) btree \<Rightarrow> (sub_id, sub_entry) btree \<Rightarrow> (sub_id, sub_entry) btree" where
  "awake wakers subs = filter (\<lambda>s. bt_get wakers (fst s) \<noteq> None) subs"

lemma forward_subs_fold:
  assumes "distinct (map fst subs)"
  shows "let s' = fold (forward_sub (rec_tx acc) t pg) subs s; a = awake (fw_wakers s) subs in
    fw_chans s' = fw_chans s @ map (\<lambda>(i, e). (se_tx e, pg)) a
    \<and> fw_woken s' = fw_woken s @ map (\<lambda>(i, e). the (bt_get (fw_wakers s) i)) (filter (\<lambda>(i, e). acc (se_tx e)) a)
    \<and> fw_remove s' = fw_remove s @ map (\<lambda>(i, e). (i, t)) (filter (\<lambda>(i, e). \<not> acc (se_tx e)) a)
    \<and> (\<forall>j. bt_get (fw_wakers s') j = (if j \<in> fst ` set subs then None else bt_get (fw_wakers s) j))"
  using assms
proof (induction subs arbitrary: s)
  case Nil
  then show ?case by (simp add: awake_def)
next
  case (Cons sub subs)
  obtain i e where sub: "sub = (i, e)" by fastforce
  let ?s1 = "forward_sub (rec_tx acc) t pg sub s"
  have d: "distinct (map fst subs)" "i \<notin> fst ` set subs"
    using Cons.prems sub by auto
  have w1: "bt_get (fw_wakers ?s1) j = (if j = i then None else bt_get (fw_wakers s) j)" for j
    by (auto simp: forward_sub_def sub rec_tx_def Let_def bt_get_remove split: option.splits)
  have eqw: "bt_get (fw_wakers ?s1) j = bt_get (fw_wakers s) j" if "(j, e') \<in> set subs" for j e'
    using w1 that d(2) by (metis fst_conv image_eqI)
  have a1: "awake (fw_wakers ?s1) subs = awake (fw_wakers s) subs"
    unfolding awake_def by (rule filter_cong) (use eqw in \<open>auto simp: prod_eq_iff\<close>)
  have m1: "map (\<lambda>(j, e). the (bt_get (fw_wakers ?s1) j)) (filter (\<lambda>(j, e). acc (se_tx e)) (awake (fw_wakers s) subs))
      = map (\<lambda>(j, e). the (bt_get (fw_wakers s) j)) (filter (\<lambda>(j, e). acc (se_tx e)) (awake (fw_wakers s) subs))"
    by (rule map_cong) (use eqw in \<open>auto simp: awake_def\<close>)
  note IH = Cons.IH [OF d(1), of ?s1, unfolded Let_def a1 m1]
  have f1: "fw_chans ?s1 = fw_chans s @ (if bt_get (fw_wakers s) i = None then [] else [(se_tx e, pg)])"
      "fw_woken ?s1 = fw_woken s @ (if acc (se_tx e) then (case bt_get (fw_wakers s) i of None \<Rightarrow> [] | Some w \<Rightarrow> [w]) else [])"
      "fw_remove ?s1 = fw_remove s @ (if bt_get (fw_wakers s) i = None \<or> acc (se_tx e) then [] else [(i, t)])"
    by (auto simp: forward_sub_def sub rec_tx_def Let_def split: option.splits)
  have a: "awake (fw_wakers s) (sub # subs) =
      (if bt_get (fw_wakers s) i = None then [] else [(i, e)]) @ awake (fw_wakers s) subs"
    by (simp add: awake_def sub)
  show ?case
    unfolding fold_Cons comp_apply Let_def a
    using IH unfolding f1 w1
    by (auto simp: sub split: option.splits)
qed

end
