(* ===== verification/StreamRuns.thy ===== *)
theory StreamRuns
  imports StreamerFacts
begin

text \<open>
  The streaming task seen from outside: the set of subscriptions it implements, what one round
  offers to the channels, the pages it reads for a tag over a run (a client of the cursor
  contract), and the timing of its \<open>select!\<close>.
\<close>

section \<open>The set of subscriptions\<close>

text \<open>The abstract state: which (tag, id) pairs are subscribed, and with which channel.\<close>

definition subs_abs :: "manager \<Rightarrow> u32 \<times> sub_id \<Rightarrow> sub_entry option" where
  "subs_abs m p = (case bt_get (mg_tags m) (fst p) of
     None \<Rightarrow> None | Some td \<Rightarrow> bt_get (td_subs td) (snd p))"

fun subs_spec :: "nat \<Rightarrow> streamer_message \<Rightarrow> (u32 \<times> sub_id \<Rightarrow> sub_entry option)
    \<Rightarrow> (u32 \<times> sub_id \<Rightarrow> sub_entry option)" where
  "subs_spec now (AddSub s) subs = subs((sf_tag s, sf_id s) \<mapsto> \<lparr>se_tx = sf_tx s, se_created_at = now\<rparr>)"
| "subs_spec now (RemoveSub i t why) subs = subs((t, i) := None)"
| "subs_spec now (WakerMsg i w) subs = subs"
| "subs_spec now Shutdown subs = subs"

lemma bt_remove_Nil_get: "bt_remove i m = [] \<Longrightarrow> j \<noteq> i \<Longrightarrow> bt_get m j = None"
  by (metis bt_get_Nil bt_get_remove)

lemma subs_abs_add: "subs_abs (fst (add_sub now s m)) = subs_spec now (AddSub s) (subs_abs m)"
  by (rule ext)
    (auto simp: subs_abs_def add_sub_get bt_get_insert prod_eq_iff split: option.splits)

lemma subs_abs_remove: "subs_abs (fst (remove_sub now i t why m)) = subs_spec now (RemoveSub i t why) (subs_abs m)"
  by (rule ext)
    (auto simp: subs_abs_def remove_sub_get bt_get_remove bt_remove_Nil_get prod_eq_iff split: option.splits)

lemma subs_abs_waker: "subs_abs (update_waker i w m) = subs_abs m"
  by (rule ext) (simp add: subs_abs_def update_waker_def)

lemma streamer_step_subs:
  "subs_abs (ss_manager (snd (streamer_step x e (Received msg) s))) =
     subs_spec (env_now e) msg (subs_abs (ss_manager s))"
  by (cases msg) (simp_all add: case_prod_beta subs_abs_add subs_abs_remove subs_abs_waker)

lemma streamer_step_received:
  "fst (streamer_step x e (Received msg) s) = Ok (msg \<noteq> Shutdown)"
  by (cases msg) (simp_all add: case_prod_beta)

lemma subs_abs_wakers_upd [simp]: "subs_abs (m\<lparr>mg_wakers := w\<rparr>) = subs_abs m"
  by (rule ext) (simp add: subs_abs_def)

lemma subs_abs_timestamps: "subs_abs (update_timestamps upd m) = subs_abs m"
proof (induction upd m rule: update_timestamps.induct)
  case (1 m)
  then show ?case by simp
next
  case (2 t pg upd m)
  then show ?case
    by (auto simp: subs_abs_def bt_get_insert fun_eq_iff split: option.splits)
qed

lemma subs_abs_remove_subs:
  "subs_abs (fst (remove_subs now rs m)) =
     (\<lambda>p. if (snd p, fst p) \<in> set rs then None else subs_abs m p)"
proof (induction now rs m rule: remove_subs.induct)
  case (1 now m)
  then show ?case by simp
next
  case (2 now i t rs m)
  obtain m1 l1 where m1: "remove_sub now i t ''backpressure'' m = (m1, l1)"
    by fastforce
  then have "subs_abs m1 = (subs_abs m)((t, i) := None)"
    using subs_abs_remove [of now i t "''backpressure''" m] by simp
  then show ?case
    using 2 [OF refl m1 [symmetric]] m1 by (auto simp: case_prod_beta fun_eq_iff)
qed

text \<open>The number the log reports counts the subscriptions.\<close>

lemma active_subs_card:
  assumes "mg_ok m"
  shows "active_subs m = card (dom (subs_abs m))"
proof -
  let ?P = "concat (map (\<lambda>(t, td). map (\<lambda>(i, e). (t, i)) (td_subs td)) (mg_tags m))"
  have get: "(t, td) \<in> set (mg_tags m) \<longleftrightarrow> bt_get (mg_tags m) t = Some td" for t td
    by (rule btree.in_entries_iff [OF mg_okD(1) [OF assms]])
  have "dom (subs_abs m) = set ?P"
  proof (rule set_eqI)
    fix p :: "u32 \<times> sub_id"
    obtain t i where p: "p = (t, i)" by fastforce
    have "p \<in> dom (subs_abs m) \<longleftrightarrow> (\<exists>td. bt_get (mg_tags m) t = Some td \<and> (\<exists>e. (i, e) \<in> set (td_subs td)))"
      using mg_okD(4) [OF assms]
      by (fastforce simp: p subs_abs_def dom_def btree.in_entries_iff split: option.splits)
    also have "\<dots> \<longleftrightarrow> p \<in> set ?P"
      by (force simp: p get [symmetric])
    finally show "p \<in> dom (subs_abs m) \<longleftrightarrow> p \<in> set ?P" .
  qed
  moreover have "distinct ?P"
  proof -
    have "distinct (concat (map (\<lambda>(t, td). map (\<lambda>(i, e). (t, i)) (td_subs td)) tags))"
      if "distinct (map fst tags)" "\<And>t td. (t, td) \<in> set tags \<Longrightarrow> bt_ok (td_subs td)"
      for tags :: "(u32, tag_data) btree"
      using that
    proof (induction tags)
      case Nil
      then show ?case by simp
    next
      case (Cons e tags)
      obtain t td where e: "e = (t, td)" by fastforce
      have "distinct (map fst (td_subs td))"
        using Cons.prems(2) e btree.entries_distinct by auto
      moreover have "map (\<lambda>(i, e). (t, i)) (td_subs td) = map (Pair t) (map fst (td_subs td))"
        by (simp add: case_prod_unfold)
      ultimately have "distinct (map (\<lambda>(i, e). (t, i)) (td_subs td))"
        by (simp only: distinct_map [of "Pair t"]) (simp add: inj_on_def)
      moreover have "distinct (concat (map (\<lambda>(t, td). map (\<lambda>(i, e). (t, i)) (td_subs td)) tags))"
        using Cons.prems by (intro Cons.IH) auto
      ultimately show ?case
        using Cons.prems(1) by (force simp: e)
    qed
    then show ?thesis
      using btree.entries_distinct [OF mg_okD(1) [OF assms]] mg_okD(4) [OF assms] get by blast
  qed
  moreover have "length ?P = active_subs m"
    by (simp add: active_subs_def length_concat comp_def case_prod_unfold)
  ultimately show ?thesis
    using distinct_card by metis
qed

section \<open>What a round offers to the channels\<close>

abbreviation tag_subs :: "manager \<Rightarrow> u32 \<Rightarrow> (sub_id, sub_entry) btree" where
  "tag_subs m t \<equiv> (case bt_get (mg_tags m) t of None \<Rightarrow> [] | Some td \<Rightarrow> td_subs td)"

text \<open>Subscription ids are drawn at random; the facts below are about managers without a clash.\<close>

definition ids_unique :: "manager \<Rightarrow> bool" where
  "ids_unique m \<longleftrightarrow> (\<forall>t t' i. subs_abs m (t, i) \<noteq> None \<longrightarrow> subs_abs m (t', i) \<noteq> None \<longrightarrow> t = t')"

text \<open>
  The offers of a round: each update, to each subscription of its tag whose waker is stored, in
  the order of the updates and of the subscription ids.
\<close>

definition offers :: "manager \<Rightarrow> (u32 \<times> transport_notes_pg) list \<Rightarrow> (chan \<times> transport_notes_pg) list" where
  "offers m upd = concat (map (\<lambda>(t, pg). map (\<lambda>(i, e). (se_tx e, pg)) (awake (mg_wakers m) (tag_subs m t))) upd)"

definition refused :: "(chan \<Rightarrow> bool) \<Rightarrow> manager \<Rightarrow> (u32 \<times> transport_notes_pg) list \<Rightarrow> (sub_id \<times> u32) list" where
  "refused acc m upd = concat (map (\<lambda>(t, pg). map (\<lambda>(i, e). (i, t))
     (filter (\<lambda>(i, e). \<not> acc (se_tx e)) (awake (mg_wakers m) (tag_subs m t)))) upd)"

definition wakeups :: "(chan \<Rightarrow> bool) \<Rightarrow> manager \<Rightarrow> (u32 \<times> transport_notes_pg) list \<Rightarrow> waker list" where
  "wakeups acc m upd = concat (map (\<lambda>(t, pg). map (\<lambda>(i, e). the (bt_get (mg_wakers m) i))
     (filter (\<lambda>(i, e). acc (se_tx e)) (awake (mg_wakers m) (tag_subs m t)))) upd)"

lemma in_tag_subs:
  "mg_ok m \<Longrightarrow> (i, e) \<in> set (tag_subs m t) \<longleftrightarrow> subs_abs m (t, i) = Some e"
  by (auto simp: subs_abs_def btree.in_entries_iff mg_okD(4) split: option.splits)

lemma tag_subs_distinct: "mg_ok m \<Longrightarrow> distinct (map fst (tag_subs m t))"
  by (auto dest: mg_okD(4) btree.entries_distinct split: option.splits)

lemma forward_tag_fold:
  "forward_tag tx (mg_tags m) (t, pg) s = fold (forward_sub tx t pg) (tag_subs m t) s"
  by (simp add: forward_tag_def split: option.splits)

lemma awake_cong:
  "(\<And>i e. (i, e) \<in> set subs \<Longrightarrow> bt_get w i = bt_get w' i) \<Longrightarrow> awake w subs = awake w' subs"
  unfolding awake_def by (rule filter_cong) (auto simp: prod_eq_iff)

lemma forward_tags_fold:
  assumes "mg_ok m" "ids_unique m" "distinct (map fst upd)"
    and "\<And>t pg i e. (t, pg) \<in> set upd \<Longrightarrow> (i, e) \<in> set (tag_subs m t) \<Longrightarrow>
      bt_get (fw_wakers s) i = bt_get (mg_wakers m) i"
  shows "let s' = fold (forward_tag (rec_tx acc) (mg_tags m)) upd s in
    fw_chans s' = fw_chans s @ offers m upd
    \<and> fw_woken s' = fw_woken s @ wakeups acc m upd
    \<and> fw_remove s' = fw_remove s @ refused acc m upd
    \<and> (\<forall>j. bt_get (fw_wakers s') j =
         (if \<exists>t \<in> fst ` set upd. subs_abs m (t, j) \<noteq> None then None else bt_get (fw_wakers s) j))"
  using assms(3,4)
proof (induction upd arbitrary: s)
  case Nil
  then show ?case by (simp add: offers_def wakeups_def refused_def)
next
  case (Cons u upd)
  obtain t pg where u: "u = (t, pg)" by (cases u) blast
  let ?subs = "tag_subs m t"
  let ?after = "forward_tag (rec_tx acc) (mg_tags m) u s"
  have w: "bt_get (fw_wakers s) i = bt_get (mg_wakers m) i" if "(i, e) \<in> set ?subs" for i e
    using Cons.prems(2) [of t pg i e] that u by simp
  have a: "awake (fw_wakers s) ?subs = awake (mg_wakers m) ?subs"
    by (rule awake_cong) (rule w)
  have m: "map (\<lambda>(j, e). the (bt_get (fw_wakers s) j)) (filter (\<lambda>(j, e). acc (se_tx e)) (awake (mg_wakers m) ?subs))
      = map (\<lambda>(j, e). the (bt_get (mg_wakers m) j)) (filter (\<lambda>(j, e). acc (se_tx e)) (awake (mg_wakers m) ?subs))"
    by (rule map_cong) (use w in \<open>fastforce simp: awake_def\<close>)+
  note f1 = forward_subs_fold [OF tag_subs_distinct [OF assms(1)], of acc t pg t s, unfolded Let_def a m]
  have s1: "?after = fold (forward_sub (rec_tx acc) t pg) ?subs s"
    by (simp add: u forward_tag_fold)
  have mem: "j \<in> fst ` set ?subs \<longleftrightarrow> subs_abs m (t, j) \<noteq> None" for j
    using in_tag_subs [OF assms(1)] by (force simp: image_iff)
  have IH: "bt_get (fw_wakers ?after) i = bt_get (mg_wakers m) i"
    if "(t', pg') \<in> set upd" "(i, e) \<in> set (tag_subs m t')" for t' pg' i e
  proof -
    have "t' \<noteq> t"
      using Cons.prems(1) that(1) u by force
    moreover have "subs_abs m (t', i) \<noteq> None"
      using that(2) in_tag_subs [OF assms(1)] by simp
    ultimately have "i \<notin> fst ` set ?subs"
      using assms(2) unfolding mem ids_unique_def by blast
    then show ?thesis
      using f1 Cons.prems(2) [of t' pg' i e] that unfolding s1 by simp
  qed
  have d: "distinct (map fst upd)"
    using Cons.prems(1) by simp
  show ?case
    using Cons.IH [OF d IH] f1 unfolding s1 Let_def mem
    by (simp add: u forward_tag_fold offers_def wakeups_def refused_def)
qed

text \<open>The whole of \<open>forward_updates\<close> on channels that record every offer.\<close>

lemma forward_updates_exact:
  assumes "mg_ok m" "ids_unique m" "distinct (map fst upd)"
    and "forward_updates (rec_tx acc) now upd m sent = (m', sent', woken, l)"
  shows "sent' = sent @ offers m upd" "woken = wakeups acc m upd"
    "subs_abs m' = (\<lambda>p. if (snd p, fst p) \<in> set (refused acc m upd) then None else subs_abs m p)"
    "bt_get (mg_wakers m') j =
      (if \<exists>t \<in> fst ` set upd. subs_abs m (t, j) \<noteq> None then None else bt_get (mg_wakers m) j)"
proof -
  let ?init = "\<lparr>fw_wakers = mg_wakers m, fw_chans = sent, fw_woken = [], fw_remove = []\<rparr>"
  let ?s = "fold (forward_tag (rec_tx acc) (mg_tags m)) upd ?init"
  have f: "fw_chans ?s = sent @ offers m upd" "fw_woken ?s = wakeups acc m upd"
    "fw_remove ?s = refused acc m upd"
    "bt_get (fw_wakers ?s) j =
      (if \<exists>t \<in> fst ` set upd. subs_abs m (t, j) \<noteq> None then None else bt_get (mg_wakers m) j)"
    using forward_tags_fold [OF assms(1-3), where s = ?init and acc = acc] by (simp_all add: Let_def)
  have r: "m' = fst (remove_subs now (fw_remove ?s) (m\<lparr>mg_wakers := fw_wakers ?s\<rparr>))"
      "sent' = fw_chans ?s" "woken = fw_woken ?s"
    using assms(4) by (simp_all add: forward_updates_def Let_def case_prod_beta prod_eq_iff)
  show "sent' = sent @ offers m upd" "woken = wakeups acc m upd"
    using r f by simp_all
  show "subs_abs m' = (\<lambda>p. if (snd p, fst p) \<in> set (refused acc m upd) then None else subs_abs m p)"
    unfolding r(1) subs_abs_remove_subs f(3) subs_abs_wakers_upd by (rule refl)
  show "bt_get (mg_wakers m') j =
      (if \<exists>t \<in> fst ` set upd. subs_abs m (t, j) \<noteq> None then None else bt_get (mg_wakers m) j)"
    unfolding r(1) remove_subs_wakers using f(4) by simp
qed

end
