(* ===== verification/StreamDelivery.thy ===== *)
theory StreamDelivery
  imports StreamRuns
begin

text \<open>
  The streamer as a client of the cursor contract: for a tag that stays tracked, the updates of
  successive rounds are the pages of one cursor run. Then what a round that fails does, and the
  timing of the \<open>select!\<close> between the query and the control messages.
\<close>

section \<open>The cursor of a tag\<close>

definition tag_cursor :: "manager \<Rightarrow> u32 \<Rightarrow> u64 option" where
  "tag_cursor m t = map_option td_cursor (bt_get (mg_tags m) t)"

lemma add_sub_cursor: "tag_cursor m t = Some c \<Longrightarrow> tag_cursor (fst (add_sub now s m)) t = Some c"
  by (auto simp: tag_cursor_def add_sub_get)

lemma add_sub_new_cursor: "tag_cursor m (sf_tag s) = None \<Longrightarrow> tag_cursor (fst (add_sub now s m)) (sf_tag s) = Some 0"
  by (auto simp: tag_cursor_def add_sub_get)

lemma remove_sub_cursor:
  "tag_cursor (fst (remove_sub now i t' why m)) t = Some c \<Longrightarrow> tag_cursor m t = Some c"
  by (auto simp: tag_cursor_def remove_sub_get split: if_splits option.splits)

lemma remove_subs_cursor: "tag_cursor (fst (remove_subs now rs m)) t = Some c \<Longrightarrow> tag_cursor m t = Some c"
proof (induction now rs m rule: remove_subs.induct)
  case (1 now m)
  then show ?case by simp
next
  case (2 now i t' rs m)
  obtain m1 l1 where m1: "remove_sub now i t' ''backpressure'' m = (m1, l1)"
    by fastforce
  have "tag_cursor m1 t = Some c"
    using 2(1) [OF refl m1 [symmetric]] 2(2) m1 by (simp add: case_prod_beta)
  then show ?case
    using remove_sub_cursor [of now i t' "''backpressure''" m] m1 by simp
qed

lemma tag_cursor_wakers [simp]: "tag_cursor (m\<lparr>mg_wakers := w\<rparr>) t = tag_cursor m t"
  by (simp add: tag_cursor_def)

lemma forward_updates_cursor:
  "tag_cursor (fst (forward_updates tx now upd m chans)) t = Some c \<Longrightarrow> tag_cursor m t = Some c"
  by (auto simp: forward_updates_def Let_def case_prod_beta dest: remove_subs_cursor)

lemma update_timestamps_cursor:
  "distinct (map fst upd) \<Longrightarrow> tag_cursor (update_timestamps upd m) t =
     (case map_of upd t of None \<Rightarrow> tag_cursor m t | Some pg \<Rightarrow> map_option (\<lambda>_. snd pg) (tag_cursor m t))"
  by (auto simp: tag_cursor_def update_timestamps_get option.map_comp comp_def split: option.splits)

text \<open>What the round of a step returns for a tag.\<close>

definition step_notes ::
  "('h, 't) extern \<Rightarrow> 'c streamer_env \<Rightarrow> select_branch \<Rightarrow> 'c streamer_state \<Rightarrow> u32 \<Rightarrow> transport_note list" where
  "step_notes x e b s tag =
     (case b of
        Received msg \<Rightarrow> []
      | QueryReady \<Rightarrow>
          (case fst (query_updates x (env_faults e) (env_dbs e) (ss_manager s) (ss_tel s)) of
             Err _ \<Rightarrow> []
           | Ok upd \<Rightarrow> (case map_of upd tag of None \<Rightarrow> [] | Some pg \<Rightarrow> fst pg)))"

lemma round_updates_lookup:
  assumes "bt_ok tags" and "bt_get tags t = Some td"
  shows "map_of (round_updates dbs tags) t =
    (if tag_page dbs t td = [] then None
     else Some (map row_transport (tag_page dbs t td),
                word_of_int (page_end (uint (td_cursor td)) (tag_page dbs t td))))"
proof (cases "tag_page dbs t td = []")
  case True
  then have "\<nexists>pg. (t, pg) \<in> set (round_updates dbs tags)"
    using in_round_updates [OF assms(1)] assms(2) by auto
  then show ?thesis
    using True by (auto simp: map_of_eq_None_iff)
next
  case False
  then have "(t, map row_transport (tag_page dbs t td),
      word_of_int (page_end (uint (td_cursor td)) (tag_page dbs t td))) \<in> set (round_updates dbs tags)"
    using in_round_updates [OF assms(1)] assms(2) by auto
  then show ?thesis
    using False round_updates_tags [OF assms(1)] by (simp add: map_of_eq_Some_iff)
qed

text \<open>One step of the loop moves a tag's cursor to the end of the page it read, or not at all.\<close>

lemma page_end_word:
  assumes "db_ok x t"
  shows "uint (word_of_int (page_end (uint (c :: u64)) (pull_page tags t (uint c))) :: u64) =
    page_end (uint c) (pull_page tags t (uint c))"
proof -
  have k: "row_key r < 18446744073709551616" for r :: note_row
    using sint_lt [of "nr_seq r"] by simp
  have "page_end (uint c) (pull_page tags t (uint c)) < 2 ^ 64"
    using page_end_in [of "uint c" "pull_page tags t (uint c)"] uint_bounded [of c]
    by (elim disjE bexE) (simp_all add: k del: uint_bounded)
  moreover have "0 \<le> page_end (uint c) (pull_page tags t (uint c))"
    using page_end_ge [of "uint c"] uint_nonnegative [of c] by (rule order_trans [rotated])
  ultimately show ?thesis
    by (simp add: uint_word_of_int_eq take_bit_int_eq_self)
qed

lemma streamer_step_cursor:
  assumes ok: "mg_ok (ss_manager s)" and dbs: "\<And>t. db_ok x (env_dbs e t)" and "codec_ok x"
    and c: "tag_cursor (ss_manager s) tag = Some c"
    and st: "streamer_step x e b s = (r, s')"
    and c': "tag_cursor (ss_manager s') tag = Some c'"
  shows "(step_notes x e b s tag = [] \<and> c' = c) \<or>
    (step_notes x e b s tag = map row_transport (pull_page [tag] (env_dbs e tag) (uint c)) \<and>
     uint c' = page_end (uint c) (pull_page [tag] (env_dbs e tag) (uint c)))"
proof (cases b)
  case (Received msg)
  have "c' = c"
    using st c c' Received add_sub_cursor [OF c]
    by (cases msg) (auto simp: case_prod_beta update_waker_def tag_cursor_def [symmetric]
        dest!: remove_sub_cursor)
  then show ?thesis
    by (simp add: step_notes_def Received)
next
  case QueryReady
  obtain q tel where q: "query_updates x (env_faults e) (env_dbs e) (ss_manager s) (ss_tel s) = (q, tel)"
    by fastforce
  show ?thesis
  proof (cases q)
    case (Err err)
    then show ?thesis
      using st c c' QueryReady q by (auto simp: step_notes_def)
  next
    case (Ok upd)
    have upd: "upd = round_updates (env_dbs e) (mg_tags (ss_manager s))"
      by (rule query_updates_OkD [where dbs = "env_dbs e", OF dbs assms(3)]) (use q Ok in simp)
    have "ss_manager s' = fst (forward_updates (env_tx e) (env_now e) upd
        (update_timestamps upd (ss_manager s)) (ss_chans s))"
      using st QueryReady q Ok by (auto simp: Let_def case_prod_beta)
    then have u: "tag_cursor (update_timestamps upd (ss_manager s)) tag = Some c'"
      using c' by (auto dest: forward_updates_cursor)
    obtain td where td: "bt_get (mg_tags (ss_manager s)) tag = Some td" "td_cursor td = c"
      using c by (auto simp: tag_cursor_def)
    have d: "distinct (map fst upd)"
      unfolding upd by (rule round_updates_tags [OF mg_okD(1) [OF ok]])
    note l = round_updates_lookup [OF mg_okD(1) [OF ok] td(1), of "env_dbs e"]
    show ?thesis
    proof (cases "pull_page [tag] (env_dbs e tag) (uint c) = []")
      case True
      then have "map_of upd tag = None"
        using l td(2) upd by simp
      then show ?thesis
        using u c d q Ok QueryReady by (simp add: update_timestamps_cursor step_notes_def)
    next
      case False
      then have m: "map_of upd tag = Some (map row_transport (pull_page [tag] (env_dbs e tag) (uint c)),
          word_of_int (page_end (uint c) (pull_page [tag] (env_dbs e tag) (uint c))))"
        using l td(2) upd by simp
      have "c' = word_of_int (page_end (uint c) (pull_page [tag] (env_dbs e tag) (uint c)))"
        using u c d m by (simp add: update_timestamps_cursor)
      then show ?thesis
        using m q Ok QueryReady page_end_word [OF dbs, of c "[tag]" tag] by (simp add: step_notes_def)
    qed
  qed
qed

section \<open>Runs of the task, seen from one tag\<close>

text \<open>
  The table changes between the iterations (\<open>env\<close>); at each, the query for \<open>tag\<close> meets the current
  table. The run covers a span in which the tag stays tracked; \<open>notes\<close> is what its rounds have
  returned for the tag.
\<close>

inductive tag_run ::
  "(notes_table \<Rightarrow> notes_table \<Rightarrow> bool) \<Rightarrow> ('h, 't) extern \<Rightarrow> u32 \<Rightarrow> notes_table \<Rightarrow> 'c streamer_state
     \<Rightarrow> notes_table \<Rightarrow> 'c streamer_state \<Rightarrow> transport_note list \<Rightarrow> bool"
  for env x tag t0 s0 where
  start: "tag_run env x tag t0 s0 t0 s0 []"
| other: "tag_run env x tag t0 s0 t s got \<Longrightarrow> env t t' \<Longrightarrow> tag_run env x tag t0 s0 t' s got"
| iterate: "tag_run env x tag t0 s0 t s got \<Longrightarrow> env_dbs e tag = t \<Longrightarrow> (\<And>t'. db_ok x (env_dbs e t')) \<Longrightarrow>
     streamer_step x e b s = (r, s') \<Longrightarrow> tag_cursor (ss_manager s') tag \<noteq> None \<Longrightarrow>
     tag_run env x tag t0 s0 t s' (got @ step_notes x e b s tag)"

lemma tag_run_cursor_run:
  assumes "tag_run env x tag t0 s0 t s got"
    and "db_ok x t0" "codec_ok x" "mg_ok (ss_manager s0)" "tag_cursor (ss_manager s0) tag = Some c0"
    and env: "\<And>t t'. env t t' \<Longrightarrow> db_step x cfg t t'"
  shows "\<exists>rows c. got = map row_transport rows \<and> db_ok x t \<and> mg_ok (ss_manager s) \<and>
    tag_cursor (ss_manager s) tag = Some c \<and>
    cursor_run env (pull_page [tag]) page_end t0 (uint c0) t (uint c) rows"
  using assms(1,2)
proof (induction rule: tag_run.induct)
  case start
  then show ?case
    using assms(4,5) by (auto intro: cursor_run.start)
next
  case (other t s got t')
  then show ?case
    using env db_step_ok by (blast intro: cursor_run.other)
next
  case (iterate t s got e b r s')
  then obtain rows c where r: "got = map row_transport rows" "db_ok x t" "mg_ok (ss_manager s)"
      "tag_cursor (ss_manager s) tag = Some c"
      "cursor_run env (pull_page [tag]) page_end t0 (uint c0) t (uint c) rows"
    by blast
  have ok': "mg_ok (ss_manager s')"
    using streamer_step_ok [OF r(3), of x e b] iterate.hyps by simp
  obtain c' where c': "tag_cursor (ss_manager s') tag = Some c'"
    using iterate.hyps by blast
  show ?case
    using streamer_step_cursor [OF r(3) iterate.hyps(3) assms(3) r(4) iterate.hyps(4) c']
  proof (elim disjE conjE)
    assume "step_notes x e b s tag = []" "c' = c"
    then show ?thesis
      using r c' ok' by auto
  next
    assume p: "step_notes x e b s tag = map row_transport (pull_page [tag] (env_dbs e tag) (uint c))"
      "uint c' = page_end (uint c) (pull_page [tag] (env_dbs e tag) (uint c))"
    have "cursor_run env (pull_page [tag]) page_end t0 (uint c0) t (uint c') (rows @ pull_page [tag] t (uint c))"
      using cursor_run.read [OF r(5)] p(2) iterate.hyps(2) by simp
    then show ?thesis
      using p(1) r(1,2) c' ok' iterate.hyps(2) by (metis map_append)
  qed
qed

section \<open>A round that fails\<close>

lemma query_tags_Err:
  assumes "(tag, td) \<in> set tags"
    and "\<And>tel. \<not> is_ok (fst (db_fetch_notes x (fs tag) tag (td_cursor td) (dbs tag) tel))"
  shows "\<exists>err. fst (query_tags x fs dbs tags tel) = Err err"
  using assms(1)
proof (induction tags arbitrary: tel)
  case Nil
  then show ?case by simp
next
  case (Cons e tags)
  obtain t td' where e: "e = (t, td')" by fastforce
  obtain r tel1 where r: "db_fetch_notes x (fs t) t (td_cursor td') (dbs t) tel = (r, tel1)"
    by fastforce
  show ?case
  proof (cases r)
    case (Err err)
    then show ?thesis
      using r by (simp add: e)
  next
    case (Ok ns)
    have "(tag, td) \<noteq> e"
      using assms(2) [of tel] Ok r e by auto
    then have "(tag, td) \<in> set tags"
      using Cons.prems by simp
    then show ?thesis
      using Cons.IH r Ok e
      by (auto simp: Let_def case_prod_beta split: result.splits) (metis res_bind.simps(2))
  qed
qed

lemma db_fetch_notes_pool_fault:
  assumes "f_pool f = Some msg"
  shows "\<not> is_ok (fst (db_fetch_notes x f tag c t tel))"
proof -
  obtain timer tel1 where t1: "db_fetch_notes_timer tel = (timer, tel1)"
    by fastforce
  obtain eff tel2 where t2: "effective_cursor c tel1 = (eff, tel2)"
    by fastforce
  show ?thesis
    using assms t1 t2
    by (simp add: db_fetch_notes_def db_fetch_notes_by_tags_def transact_def split: option.splits)
qed

section \<open>The timing of the select\<close>

text \<open>
  \<open>NoteStreamer::step\<close> starts a fresh \<open>query_updates\<close> on every iteration, whose first act is to
  sleep for \<open>SLEEP\<close> milliseconds; a control message that arrives before the query is done wins
  the \<open>select!\<close>, and the query is dropped with the time it has slept. Over control messages with
  their arrival times (in order), \<open>select_trace n now\<close> is the branches of the next \<open>n\<close> iterations
  when the loop is at time \<open>now\<close> and a round's queries take \<open>d\<close> milliseconds.
\<close>

definition SLEEP :: nat where
  "SLEEP = 500"

fun select_trace :: "nat \<Rightarrow> nat \<Rightarrow> nat \<Rightarrow> (nat \<times> streamer_message) list \<Rightarrow> select_branch list" where
  "select_trace 0 d now msgs = []"
| "select_trace (Suc n) d now [] = QueryReady # select_trace n d (now + SLEEP + d) []"
| "select_trace (Suc n) d now ((at, msg) # msgs) =
     (if at < now + SLEEP + d then Received msg # select_trace n d (max now at) msgs
      else QueryReady # select_trace n d (now + SLEEP + d) ((at, msg) # msgs))"

text \<open>Every message comes less than \<open>gap\<close> after the previous one.\<close>

fun spaced :: "nat \<Rightarrow> nat \<Rightarrow> (nat \<times> streamer_message) list \<Rightarrow> bool" where
  "spaced gap now [] = True"
| "spaced gap now ((at, msg) # msgs) = (now \<le> at \<and> at < now + gap \<and> spaced gap at msgs)"

lemma select_trace_spaced:
  "spaced (SLEEP + d) now msgs \<Longrightarrow> n \<le> length msgs \<Longrightarrow>
     select_trace n d now msgs = map (\<lambda>(at, msg). Received msg) (take n msgs)"
proof (induction n d now msgs rule: select_trace.induct)
  case (3 n d now at msg msgs)
  then show ?case by (simp add: max_def)
qed simp_all

lemma select_trace_quiet: "select_trace n d now [] = replicate n QueryReady"
  by (induction n arbitrary: now) simp_all

section \<open>Messages that never reach the loop's end\<close>

lemma stream_loop_append:
  "stream_loop x (bs @ cs) s =
     (case stream_loop x bs s of (True, s) \<Rightarrow> stream_loop x cs s | (False, s) \<Rightarrow> (False, s))"
proof (induction x bs s rule: stream_loop.induct)
  case (1 x s)
  then show ?case by simp
next
  case (2 x e b bs s)
  then show ?case
    by (auto split: prod.splits result.splits bool.splits)
qed

lemma stream_loop_ok: "mg_ok (ss_manager s) \<Longrightarrow> mg_ok (ss_manager (snd (stream_loop x bs s)))"
proof (induction x bs s rule: stream_loop.induct)
  case (1 x s)
  then show ?case by simp
next
  case (2 x e b bs s)
  have "mg_ok (ss_manager (snd (streamer_step x e b s)))"
    by (rule streamer_step_ok [OF 2(3)])
  then show ?case
    using 2(1,2) by (cases "streamer_step x e b s") (auto split: result.splits bool.splits)
qed

lemma streamer_step_continues: "fst (streamer_step x e b s) = Ok False \<longleftrightarrow> b = Received Shutdown"
  by (cases "(x, e, b, s)" rule: streamer_step.cases)
    (auto simp: case_prod_beta Let_def split: prod.splits result.splits)

end
