(* ===== verification/StreamProps.thy ===== *)
theory StreamProps
  imports StreamDelivery Examples
begin

text \<open>
  The properties of the streaming task, with a concrete state each is applied to.
\<close>

section \<open>A subscriber without a stored waker\<close>

text \<open>
  What forwarding leaves alone: a subscription \<open>i\<close> whose waker is not stored is not offered
  anything and is not removed, whatever the other subscriptions are.
\<close>

definition asleep :: "sub_id \<Rightarrow> chan \<Rightarrow> (chan \<times> transport_notes_pg) list forward_state \<Rightarrow> bool" where
  "asleep i ch s \<longleftrightarrow> bt_get (fw_wakers s) i = None \<and> ch \<notin> fst ` set (fw_chans s) \<and> i \<notin> fst ` set (fw_remove s)"

lemma asleep_forward_sub:
  assumes "asleep i ch s" and "se_tx (snd sub) = ch \<Longrightarrow> fst sub = i"
  shows "asleep i ch (forward_sub (rec_tx acc) t pg sub s)"
  using assms
  by (auto simp: asleep_def forward_sub_def rec_tx_def Let_def bt_get_remove split: option.splits)

lemma asleep_forward_tags:
  assumes "asleep i ch s" and "\<And>p e. subs_abs m p = Some e \<Longrightarrow> se_tx e = ch \<Longrightarrow> snd p = i" and "mg_ok m"
  shows "asleep i ch (fold (forward_tag (rec_tx acc) (mg_tags m)) upd s)"
  using assms(1)
proof (induction upd arbitrary: s)
  case Nil
  then show ?case by simp
next
  case (Cons u upd)
  obtain t pg where u: "u = (t, pg)" by (cases u) blast
  have "asleep i ch (fold (forward_sub (rec_tx acc) t pg) subs s)"
    if "asleep i ch s" "set subs \<subseteq> set (tag_subs m t)" for subs s
    using that
  proof (induction subs arbitrary: s)
    case Nil
    then show ?case by simp
  next
    case (Cons sub subs)
    have "subs_abs m (t, fst sub) = Some (snd sub)"
      using Cons.prems(2) in_tag_subs [OF assms(3), of "fst sub" "snd sub" t] by auto
    then have "asleep i ch (forward_sub (rec_tx acc) t pg sub s)"
      using assms(2) [of "(t, fst sub)"] by (intro asleep_forward_sub [OF Cons.prems(1)]) auto
    then show ?case
      using Cons.IH Cons.prems(2) by simp
  qed
  then have "asleep i ch (forward_tag (rec_tx acc) (mg_tags m) u s)"
    using Cons.prems by (simp add: u forward_tag_fold)
  then show ?case
    by (simp add: Cons.IH)
qed

lemma forward_updates_asleep:
  assumes "mg_ok m" and "bt_get (mg_wakers m) i = None" and "ch \<notin> fst ` set sent"
    and "\<forall>p e. subs_abs m p = Some e \<longrightarrow> se_tx e = ch \<longrightarrow> snd p = i"
    and "forward_updates (rec_tx acc) now upd m sent = (m', sent', woken, l)"
  shows "bt_get (mg_wakers m') i = None" "ch \<notin> fst ` set sent'"
    "subs_abs m' (t, i) = subs_abs m (t, i)"
    "subs_abs m' p = Some e \<Longrightarrow> subs_abs m p = Some e"
proof -
  let ?s = "fold (forward_tag (rec_tx acc) (mg_tags m)) upd
      \<lparr>fw_wakers = mg_wakers m, fw_chans = sent, fw_woken = [], fw_remove = []\<rparr>"
  have a: "asleep i ch ?s"
    by (rule asleep_forward_tags [OF _ _ assms(1)]) (use assms(2-4) in \<open>auto simp: asleep_def\<close>)
  have r: "m' = fst (remove_subs now (fw_remove ?s) (m\<lparr>mg_wakers := fw_wakers ?s\<rparr>))" "sent' = fw_chans ?s"
    using assms(5) by (simp_all add: forward_updates_def Let_def case_prod_beta prod_eq_iff)
  show "bt_get (mg_wakers m') i = None" "ch \<notin> fst ` set sent'"
    using a by (simp_all add: r asleep_def)
  have abs: "subs_abs m' = (\<lambda>p. if (snd p, fst p) \<in> set (fw_remove ?s) then None else subs_abs m p)"
    unfolding r(1) subs_abs_remove_subs subs_abs_wakers_upd by (rule refl)
  show "subs_abs m' (t, i) = subs_abs m (t, i)"
    using a unfolding abs asleep_def by force
  show "subs_abs m' p = Some e \<Longrightarrow> subs_abs m p = Some e"
    unfolding abs by (simp split: if_splits)
qed

text \<open>The control messages that concern the subscription \<open>i\<close> of \<open>t\<close> or the channel \<open>ch\<close>.\<close>

fun concerns :: "sub_id \<Rightarrow> u32 \<Rightarrow> chan \<Rightarrow> select_branch \<Rightarrow> bool" where
  "concerns i t ch QueryReady = False"
| "concerns i t ch (Received (AddSub s)) = ((sf_id s = i \<and> sf_tag s = t) \<or> sf_tx s = ch)"
| "concerns i t ch (Received (RemoveSub j u why)) = (j = i \<and> u = t)"
| "concerns i t ch (Received (WakerMsg j w)) = (j = i)"
| "concerns i t ch (Received Shutdown) = False"

definition sleeping :: "sub_id \<Rightarrow> u32 \<Rightarrow> sub_entry \<Rightarrow> (chan \<times> transport_notes_pg) list streamer_state \<Rightarrow> bool" where
  "sleeping i t e s \<longleftrightarrow> mg_ok (ss_manager s) \<and> subs_abs (ss_manager s) (t, i) = Some e
     \<and> bt_get (mg_wakers (ss_manager s)) i = None \<and> se_tx e \<notin> fst ` set (ss_chans s)
     \<and> (\<forall>p e'. subs_abs (ss_manager s) p = Some e' \<longrightarrow> se_tx e' = se_tx e \<longrightarrow> snd p = i)"

lemma sleeping_step:
  assumes "sleeping i t e s" and "env_tx v = rec_tx acc" and "\<not> concerns i t (se_tx e) b"
  shows "sleeping i t e (snd (streamer_step x v b s))"
proof -
  have ok: "mg_ok (ss_manager (snd (streamer_step x v b s)))"
    by (rule streamer_step_ok) (use assms(1) in \<open>simp add: sleeping_def\<close>)
  show ?thesis
  proof (cases b)
    case (Received msg)
    have c: "ss_chans (snd (streamer_step x v b s)) = ss_chans s"
      by (cases msg) (simp_all add: Received case_prod_beta)
    have w: "bt_get (mg_wakers (ss_manager (snd (streamer_step x v b s)))) i = None"
      using assms(1,3)
      by (cases msg) (auto simp: Received case_prod_beta sleeping_def update_waker_def bt_get_insert
          add_sub_def Let_def)
    show ?thesis
      using assms(1,3) ok w streamer_step_subs [of x v msg s] unfolding sleeping_def Received [symmetric] c
      by (cases msg) (auto simp: Received split: if_splits)
  next
    case QueryReady
    obtain q tel where q: "query_updates x (env_faults v) (env_dbs v) (ss_manager s) (ss_tel s) = (q, tel)"
      by fastforce
    show ?thesis
    proof (cases q)
      case (Err err)
      then show ?thesis
        using assms(1) q QueryReady by (simp add: sleeping_def)
    next
      case (Ok upd)
      let ?m = "update_timestamps upd (ss_manager s)"
      obtain m' sent' woken l where f:
          "forward_updates (rec_tx acc) (env_now v) upd ?m (ss_chans s) = (m', sent', woken, l)"
        by (metis prod_cases4)
      have st: "snd (streamer_step x v b s) =
          \<lparr>ss_manager = m', ss_chans = sent', ss_woken = ss_woken s @ woken, ss_log = ss_log s @ l, ss_tel = tel\<rparr>"
        using q Ok f QueryReady assms(2) by (simp add: Let_def)
      have m: "mg_ok ?m" "bt_get (mg_wakers ?m) i = None" "subs_abs ?m = subs_abs (ss_manager s)"
        using assms(1) by (simp_all add: sleeping_def update_timestamps_ok subs_abs_timestamps)
      have u: "\<forall>p e'. subs_abs ?m p = Some e' \<longrightarrow> se_tx e' = se_tx e \<longrightarrow> snd p = i"
        using assms(1) unfolding m(3) sleeping_def by blast
      have "se_tx e \<notin> fst ` set (ss_chans s)"
        using assms(1) by (simp add: sleeping_def)
      note a = forward_updates_asleep [where i = i and ch = "se_tx e", OF m(1,2) this u f]
      show ?thesis
        unfolding sleeping_def st streamer_state.select_convs
      proof (intro conjI allI impI)
        show "mg_ok m'"
          using ok by (simp add: st)
        show "subs_abs m' (t, i) = Some e"
          using a(3) [where t = t] assms(1) by (simp add: m(3) sleeping_def)
        show "snd p = i" if "subs_abs m' p = Some e'" "se_tx e' = se_tx e" for p e'
          using u a(4) [OF that(1)] that(2) by blast
      qed (rule a)+
    qed
  qed
qed

lemma sleeping_loop:
  assumes "sleeping i t e s" and "\<And>v b. (v, b) \<in> set bs \<Longrightarrow> env_tx v = rec_tx acc \<and> \<not> concerns i t (se_tx e) b"
  shows "sleeping i t e (snd (stream_loop x bs s))"
  using assms
proof (induction bs arbitrary: s)
  case Nil
  then show ?case by simp
next
  case (Cons vb bs)
  obtain v b where vb: "vb = (v, b)" by fastforce
  have st: "sleeping i t e (snd (streamer_step x v b s))"
    by (rule sleeping_step [OF Cons.prems(1)]) (use Cons.prems(2) vb in auto)
  have p: "env_tx v = rec_tx acc \<and> \<not> concerns i t (se_tx e) b" if "(v, b) \<in> set bs" for v b
    by (rule Cons.prems(2)) (simp add: that)
  have IH: "sleeping i t e s' \<Longrightarrow> sleeping i t e (snd (stream_loop x bs s'))" for s'
    by (rule Cons.IH [OF _ p])
  show ?case
    using IH st by (cases "streamer_step x v b s") (simp add: vb split: result.splits bool.splits)
qed

section \<open>A concrete state\<close>

text \<open>One subscriber, on a table with one note of its tag; then the same with a stored waker.\<close>

definition entry1 :: sub_entry where
  "entry1 = \<lparr>se_tx = 40, se_created_at = 0\<rparr>"

definition sleepy :: "(chan \<times> transport_notes_pg) list streamer_state" where
  "sleepy = \<lparr>ss_manager = \<lparr>mg_tags = [(3, \<lparr>td_cursor = 0, td_subs = [(7, entry1)]\<rparr>)], mg_wakers = []\<rparr>,
             ss_chans = [], ss_woken = [], ss_log = [], ss_tel = tel0\<rparr>"

definition waiting :: "(chan \<times> transport_notes_pg) list streamer_state" where
  "waiting = sleepy\<lparr>ss_manager := update_waker 7 90 (ss_manager sleepy)\<rparr>"

definition env1 :: "(chan \<times> transport_notes_pg) list streamer_env" where
  "env1 = \<lparr>env_faults = (\<lambda>_. no_faults), env_dbs = (\<lambda>_. table1), env_tx = rec_tx (\<lambda>_. True), env_now = 5\<rparr>"

lemmas stream_eval =
  sleepy_def waiting_def env1_def entry1_def query_updates_def db_fetch_notes_def forward_updates_def
  forward_tag_def forward_sub_def rec_tx_def update_waker_def bt_get_def bt_remove_def

lemma step_waiting:
  "\<exists>tel'. streamer_step mini_extern env1 QueryReady waiting =
     (Ok True, \<lparr>ss_manager = \<lparr>mg_tags = [(3, \<lparr>td_cursor = 1, td_subs = [(7, entry1)]\<rparr>)], mg_wakers = []\<rparr>,
                ss_chans = [(40, ([note1], 1))], ss_woken = [90], ss_log = [], ss_tel = tel'\<rparr>)"
  by (simp add: handler_eval stream_eval example_rows)

lemma step_sleepy:
  "\<exists>tel'. streamer_step mini_extern env1 QueryReady sleepy =
     (Ok True, \<lparr>ss_manager = \<lparr>mg_tags = [(3, \<lparr>td_cursor = 1, td_subs = [(7, entry1)]\<rparr>)], mg_wakers = []\<rparr>,
                ss_chans = [], ss_woken = [], ss_log = [], ss_tel = tel'\<rparr>)"
  by (simp add: handler_eval stream_eval example_rows)

lemma sleepy_ok: "mg_ok (ss_manager sleepy)"
  by (auto simp: mg_ok_def stream_eval bt_ok_def split: if_splits)

lemma waiting_ok: "mg_ok (ss_manager waiting)"
  unfolding waiting_def by (simp add: update_waker_ok sleepy_ok)

section \<open>Delivery\<close>

text \<open>
  C15. Streaming reads a tag without gaps or repetitions. While a tag stays tracked, what the
  successive rounds return for it, however they interleave with sends, cleanups, control
  messages and failed rounds, is a list of rows of the tag without repetition, in the order of
  their \<open>seq\<close>, above the cursor it was tracked from; and every such row still stored and not above
  the tag's present cursor is among them.
\<close>

theorem stream_reads_tag_exactly_once:
  assumes "db_ok x t0" and "codec_ok x" and "mg_ok (ss_manager s0)"
    and "tag_cursor (ss_manager s0) tag = Some c0" and "uint c0 \<le> sint (tbl_seq t0)"
    and "tag_run (db_step x cfg) x tag t0 s0 t s got"
    and "tag_cursor (ss_manager s) tag = Some c" and "c \<le> LEGACY_CURSOR_THRESHOLD"
  shows "\<exists>rows. got = map row_transport rows
    \<and> sorted_wrt (\<lambda>r r'. row_key r < row_key r') rows
    \<and> (\<forall>r \<in> set rows. has_tag [tag] r \<and> uint c0 < row_key r \<and> row_key r \<le> uint c)
    \<and> (\<forall>r \<in> set (tbl_rows t). has_tag [tag] r \<longrightarrow> uint c0 < row_key r \<longrightarrow> row_key r \<le> uint c
         \<longrightarrow> r \<in> set rows)"
proof -
  obtain rows where r: "got = map row_transport rows"
      "cursor_run (db_step x cfg) (pull_page [tag]) page_end t0 (uint c0) t (uint c) rows"
    using tag_run_cursor_run [OF assms(6,1,2,3,4)] assms(7) by auto
  have l: "uint c \<le> LEGACY"
    using assms(8) by (simp add: LEGACY_CURSOR_THRESHOLD_def word_le_def)
  have "sorted_wrt (<) (map row_key rows)"
    "\<forall>i \<in> set rows. has_tag [tag] i \<and> uint c0 < row_key i \<and> row_key i \<le> uint c"
    using pull.run_sorted [OF r(2) assms(1) l] by simp_all
  moreover have "r \<in> set rows"
    if "r \<in> set (tbl_rows t)" "has_tag [tag] r" "uint c0 < row_key r" "row_key r \<le> uint c" for r
    by (rule pull.run_complete [OF r(2) assms(1,5) l that(1,2)]) (use that in auto)
  ultimately show ?thesis
    using r(1) by (intro exI [of _ rows]) (auto simp: sorted_wrt_map)
qed

lemma tag_run_example:
  "\<exists>s. tag_run (db_step mini_extern grpc_config_default) mini_extern 3 table1 waiting table1 s [note1]
     \<and> tag_cursor (ss_manager s) 3 = Some 1"
proof -
  obtain tel' where st: "streamer_step mini_extern env1 QueryReady waiting =
     (Ok True, \<lparr>ss_manager = \<lparr>mg_tags = [(3, \<lparr>td_cursor = 1, td_subs = [(7, entry1)]\<rparr>)], mg_wakers = []\<rparr>,
                ss_chans = [(40, ([note1], 1))], ss_woken = [90], ss_log = [], ss_tel = tel'\<rparr>)"
    using step_waiting by blast
  have n: "step_notes mini_extern env1 QueryReady waiting 3 = [note1]"
    by (simp add: step_notes_def handler_eval stream_eval example_rows)
  show ?thesis
    using tag_run.iterate [OF tag_run.start _ _ st, of 3 table1] n table1_ok
    by (fastforce simp: env1_def tag_cursor_def bt_get_def)
qed

theorem stream_reads_tag_exactly_once_witness:
  "\<exists>rows. [note1] = map row_transport rows
    \<and> sorted_wrt (\<lambda>r r'. row_key r < row_key r') rows
    \<and> (\<forall>r \<in> set rows. has_tag [3] r \<and> uint (0 :: u64) < row_key r \<and> row_key r \<le> uint (1 :: u64))
    \<and> (\<forall>r \<in> set (tbl_rows table1). has_tag [3] r \<longrightarrow> uint (0 :: u64) < row_key r \<longrightarrow>
         row_key r \<le> uint (1 :: u64) \<longrightarrow> r \<in> set rows)"
proof -
  obtain s where s: "tag_run (db_step mini_extern grpc_config_default) mini_extern 3 table1 waiting table1 s [note1]"
      "tag_cursor (ss_manager s) 3 = Some 1"
    using tag_run_example by blast
  show ?thesis
    by (rule stream_reads_tag_exactly_once [OF table1_ok mini_codec_ok waiting_ok _ _ s])
      (simp_all add: stream_eval tag_cursor_def table1_def LEGACY_CURSOR_THRESHOLD_def)
qed

text \<open>
  C16. What one round forwards. A round whose queries succeed offers each updated tag's page, in
  tag order, to exactly the subscriptions of the tag whose waker is stored; it wakes those whose
  channel takes the page, uses up the wakers of all subscriptions of the updated tags, and drops
  exactly the subscriptions whose channel refuses it.
\<close>

theorem round_forwards_to_waiting_subscribers:
  assumes "\<And>t. db_ok x (env_dbs e t)" and "codec_ok x" and "mg_ok (ss_manager s)"
    and "ids_unique (ss_manager s)" and "env_tx e = rec_tx acc"
    and "streamer_step x e QueryReady s = (Ok True, s')"
  shows "let m = ss_manager s; upd = round_updates (env_dbs e) (mg_tags m) in
    ss_chans s' = ss_chans s @ offers m upd
    \<and> ss_woken s' = ss_woken s @ wakeups acc m upd
    \<and> subs_abs (ss_manager s') =
        (\<lambda>p. if (snd p, fst p) \<in> set (refused acc m upd) then None else subs_abs m p)
    \<and> (\<forall>i. bt_get (mg_wakers (ss_manager s')) i =
        (if \<exists>t \<in> fst ` set upd. subs_abs m (t, i) \<noteq> None then None else bt_get (mg_wakers m) i))"
proof -
  obtain q tel where q: "query_updates x (env_faults e) (env_dbs e) (ss_manager s) (ss_tel s) = (q, tel)"
    by fastforce
  with assms(6) obtain upd where upd: "q = Ok upd"
    by (cases q) auto
  have u: "upd = round_updates (env_dbs e) (mg_tags (ss_manager s))"
    by (rule query_updates_OkD [where dbs = "env_dbs e", OF assms(1,2)]) (use q upd in simp)
  let ?m = "update_timestamps upd (ss_manager s)"
  obtain m' sent' woken l where f:
      "forward_updates (rec_tx acc) (env_now e) upd ?m (ss_chans s) = (m', sent', woken, l)"
    by (metis prod_cases4)
  have s': "ss_manager s' = m'" "ss_chans s' = sent'" "ss_woken s' = ss_woken s @ woken"
    using assms(5,6) q upd f by (auto simp: Let_def)
  have d: "distinct (map fst upd)"
    unfolding u by (rule round_updates_tags [OF mg_okD(1) [OF assms(3)]])
  have a: "subs_abs ?m = subs_abs (ss_manager s)"
    by (rule subs_abs_timestamps)
  have i: "ids_unique ?m"
    using assms(4) by (simp add: ids_unique_def a)
  have ts: "tag_subs ?m t = tag_subs (ss_manager s) t" for t
    using d by (auto simp: update_timestamps_get split: option.splits)
  show ?thesis
    using forward_updates_exact [OF update_timestamps_ok [OF assms(3)] i d f]
    unfolding a u [symmetric] Let_def
    by (simp add: s' offers_def wakeups_def refused_def ts)
qed

lemma waiting_unique: "ids_unique (ss_manager waiting)"
  by (simp add: ids_unique_def subs_abs_def stream_eval)

theorem round_forwards_to_waiting_subscribers_witness:
  "\<exists>s'. streamer_step mini_extern env1 QueryReady waiting = (Ok True, s') \<and>
    ss_chans s' = ss_chans waiting @
      offers (ss_manager waiting) (round_updates (\<lambda>_. table1) (mg_tags (ss_manager waiting)))"
proof -
  obtain s' where "streamer_step mini_extern env1 QueryReady waiting = (Ok True, s')"
    using step_waiting by blast
  moreover from round_forwards_to_waiting_subscribers [OF _ mini_codec_ok waiting_ok waiting_unique _ this]
  have "ss_chans s' = ss_chans waiting @
      offers (ss_manager waiting) (round_updates (\<lambda>_. table1) (mg_tags (ss_manager waiting)))"
    using table1_ok by (simp add: env1_def Let_def)
  ultimately show ?thesis
    by blast
qed

text \<open>
  C20. A subscriber whose waker is not stored when a round reaches its tag misses the page for
  good. The page is not offered to its channel, the subscription stays, and the tag's cursor moves
  to the end of the page, so that no later round returns those notes again. (A subscriber has no
  stored waker between a delivery and its next poll, and before its first poll.)
\<close>

theorem sleeping_subscriber_misses_page:
  assumes "\<And>t. db_ok x (env_dbs v t)" and "codec_ok x" and "sleeping i t e s"
    and "env_tx v = rec_tx acc" and "streamer_step x v QueryReady s = (Ok True, s')"
    and "tag_cursor (ss_manager s) t = Some c"
    and "pull_page [t] (env_dbs v t) (uint c) \<noteq> []"
  shows "subs_abs (ss_manager s') (t, i) = Some e \<and> se_tx e \<notin> fst ` set (ss_chans s')
    \<and> (\<exists>c'. tag_cursor (ss_manager s') t = Some c'
         \<and> (\<forall>r \<in> set (pull_page [t] (env_dbs v t) (uint c)). row_key r \<le> uint c'))"
proof -
  have s': "s' = snd (streamer_step x v QueryReady s)"
    using assms(5) by simp
  have sl: "sleeping i t e s'"
    unfolding s' by (rule sleeping_step [OF assms(3,4)]) simp
  then obtain td where td: "bt_get (mg_tags (ss_manager s')) t = Some td"
    by (auto simp: sleeping_def subs_abs_def split: option.splits)
  have ok: "mg_ok (ss_manager s)"
    using assms(3) by (simp add: sleeping_def)
  have c': "tag_cursor (ss_manager s') t = Some (td_cursor td)"
    by (simp add: tag_cursor_def td)
  have "step_notes x v QueryReady s t \<noteq> []"
  proof -
    obtain q tel where q: "query_updates x (env_faults v) (env_dbs v) (ss_manager s) (ss_tel s) = (q, tel)"
      by fastforce
    with assms(5) obtain upd where upd: "q = Ok upd"
      by (cases q) auto
    have u: "upd = round_updates (env_dbs v) (mg_tags (ss_manager s))"
      by (rule query_updates_OkD [where dbs = "env_dbs v", OF assms(1,2)]) (use q upd in simp)
    obtain td0 where "bt_get (mg_tags (ss_manager s)) t = Some td0" "td_cursor td0 = c"
      using assms(6) by (auto simp: tag_cursor_def)
    with round_updates_lookup [OF mg_okD(1) [OF ok] this(1), of "env_dbs v"] show ?thesis
      using assms(7) q upd u by (simp add: step_notes_def)
  qed
  then have "uint (td_cursor td) = page_end (uint c) (pull_page [t] (env_dbs v t) (uint c))"
    using streamer_step_cursor [OF ok assms(1,2,6,5) c'] by blast
  then have "\<forall>r \<in> set (pull_page [t] (env_dbs v t) (uint c)). row_key r \<le> uint (td_cursor td)"
    using page_end_ge_row by simp
  then show ?thesis
    using sl c' by (simp add: sleeping_def)
qed

lemma sleepy_sleeping: "sleeping 7 3 entry1 sleepy"
  unfolding sleeping_def using sleepy_ok
  by (auto simp: subs_abs_def stream_eval split: if_splits option.splits)

theorem sleeping_subscriber_misses_page_witness:
  "\<exists>s'. streamer_step mini_extern env1 QueryReady sleepy = (Ok True, s') \<and>
     subs_abs (ss_manager s') (3, 7) = Some entry1 \<and> 40 \<notin> fst ` set (ss_chans s') \<and>
     (\<exists>c'. tag_cursor (ss_manager s') 3 = Some c' \<and>
        (\<forall>r \<in> set (pull_page [3] table1 (uint (0 :: u64))). row_key r \<le> uint c'))"
proof -
  obtain s' where s': "streamer_step mini_extern env1 QueryReady sleepy = (Ok True, s')"
    using step_sleepy by blast
  have "pull_page [3] table1 (uint (0 :: u64)) \<noteq> []"
    by (simp add: pull_page_def query_page_def example_rows i64_of_u32_def)
  with sleeping_subscriber_misses_page [OF _ mini_codec_ok sleepy_sleeping _ s', of _ 0]
  show ?thesis
    using s' table1_ok by (simp add: env1_def tag_cursor_def stream_eval)
qed

text \<open>
  C26. Without a new poll such a subscriber is never served and never removed: over any run of the
  loop in which no message concerns it, its subscription stays in the manager and nothing is
  offered to its channel.
\<close>

theorem sleeping_subscriber_is_never_served:
  assumes "sleeping i t e s"
    and "\<And>v b. (v, b) \<in> set bs \<Longrightarrow> env_tx v = rec_tx acc \<and> \<not> concerns i t (se_tx e) b"
  shows "subs_abs (ss_manager (snd (stream_loop x bs s))) (t, i) = Some e
    \<and> se_tx e \<notin> fst ` set (ss_chans (snd (stream_loop x bs s)))"
  using sleeping_loop [where x = x, OF assms] by (simp add: sleeping_def)

theorem sleeping_subscriber_is_never_served_witness:
  "subs_abs (ss_manager (snd (stream_loop mini_extern
      [(env1, QueryReady), (env1, Received (WakerMsg 8 91)), (env1, QueryReady)] sleepy))) (3, 7) = Some entry1
    \<and> 40 \<notin> fst ` set (ss_chans (snd (stream_loop mini_extern
      [(env1, QueryReady), (env1, Received (WakerMsg 8 91)), (env1, QueryReady)] sleepy)))"
proof -
  let ?bs = "[(env1, QueryReady), (env1, Received (WakerMsg 8 91)), (env1, QueryReady)]"
  have c: "se_tx entry1 = 40"
    by (simp add: entry1_def)
  have m: "env_tx v = rec_tx (\<lambda>_. True) \<and> \<not> concerns 7 3 (se_tx entry1) b" if "(v, b) \<in> set ?bs" for v b
    using that by (auto simp: env1_def)
  show ?thesis
    unfolding c [symmetric] by (rule sleeping_subscriber_is_never_served [OF sleepy_sleeping m])
qed

end
