(* ===== verification/StreamControl.thy ===== *)
theory StreamControl
  imports StreamProps
begin

text \<open>
  The properties of the streaming task's control side: subscriptions and their removal, the end
  of the loop, failing rounds, the traffic that starves the query, and the subscriber's stream.
\<close>

section \<open>Subscriptions\<close>

lemma bt_insert_same: "bt_ok m \<Longrightarrow> bt_get m k = Some v \<Longrightarrow> bt_insert k v m = m"
proof (induction k v m rule: bt_insert.induct)
  case (1 k v)
  then show ?case by simp
next
  case (2 k v k' v' m)
  have "k' < k" if "k \<noteq> k'"
    using 2(2,3) that by (auto simp: bt_ok_def bt_get_def dest!: map_of_SomeD)
  then show ?case
    using 2 by (auto simp: bt_ok_def bt_get_def)
qed

text \<open>
  C27. The control messages implement a set of subscriptions: after any sequence of messages
  without a shutdown, the (tag, id) pairs the manager holds, with their channels, are those the
  messages add and do not remove, in their order.
\<close>

theorem control_messages_implement_subscription_set:
  assumes "Shutdown \<notin> snd ` set msgs"
  shows "subs_abs (ss_manager (snd (stream_loop x (map (\<lambda>(e, msg). (e, Received msg)) msgs) s))) =
    fold (\<lambda>(e, msg). subs_spec (env_now e) msg) msgs (subs_abs (ss_manager s))"
  using assms
proof (induction msgs arbitrary: s)
  case Nil
  then show ?case by simp
next
  case (Cons em msgs)
  obtain e msg where em: "em = (e, msg)" by fastforce
  have "fst (streamer_step x e (Received msg) s) = Ok True"
    using Cons.prems by (simp add: streamer_step_received em image_iff) metis
  then obtain s1 where s1: "streamer_step x e (Received msg) s = (Ok True, s1)"
    by (metis prod.collapse)
  then have "subs_abs (ss_manager s1) = subs_spec (env_now e) msg (subs_abs (ss_manager s))"
    using streamer_step_subs [of x e msg s] by simp
  then show ?case
    using Cons.IH [of s1] Cons.prems s1 by (simp add: em)
qed

definition ctl_env :: "nat \<Rightarrow> unit streamer_env" where
  "ctl_env now = \<lparr>env_faults = (\<lambda>_. no_faults), env_dbs = (\<lambda>_. empty_table),
                  env_tx = (\<lambda>ch pg s. (True, s)), env_now = now\<rparr>"

definition fresh_state :: "unit streamer_state" where
  "fresh_state = \<lparr>ss_manager = manager_new, ss_chans = (), ss_woken = [], ss_log = [], ss_tel = tel0\<rparr>"

theorem control_messages_implement_subscription_set_witness:
  "subs_abs (ss_manager (snd (stream_loop mini_extern (map (\<lambda>(e, msg). (e, Received msg))
      [(ctl_env 1, AddSub \<lparr>sf_id = 7, sf_tag = 3, sf_tx = 40\<rparr>), (ctl_env 2, RemoveSub 7 3 ''client_disconnect'')])
      fresh_state))) =
    fold (\<lambda>(e, msg). subs_spec (env_now e) msg)
      [(ctl_env 1, AddSub \<lparr>sf_id = 7, sf_tag = 3, sf_tx = 40\<rparr>), (ctl_env 2, RemoveSub 7 3 ''client_disconnect'')]
      (subs_abs (ss_manager fresh_state))"
  by (rule control_messages_implement_subscription_set) simp



text \<open>
  A subscription is removed once. Removing it again (the client drops a stream that was
  already evicted) changes nothing and logs nothing, whatever the time and the reason given.
\<close>

theorem removal_is_logged_once:
  assumes "mg_ok m"
  shows "remove_sub now' i t why' (fst (remove_sub now i t why m)) = (fst (remove_sub now i t why m), [])"
proof -
  let ?m = "fst (remove_sub now i t why m)"
  have ok: "mg_ok ?m"
    by (rule remove_sub_ok [OF assms])
  show ?thesis
  proof (cases "bt_get (mg_tags ?m) t")
    case None
    then show ?thesis
      by (simp add: remove_sub_def)
  next
    case (Some td)
    have n: "bt_get (td_subs td) i = None"
      using Some by (auto simp: remove_sub_get bt_get_remove split: option.splits if_splits)
    then have r: "bt_remove i (td_subs td) = td_subs td"
      by (rule bt_remove_absent)
    have "bt_insert t td (mg_tags ?m) = mg_tags ?m"
      by (rule bt_insert_same [OF mg_okD(1) [OF ok] Some])
    then show ?thesis
      using Some n mg_okD(3) [OF ok Some] unfolding remove_sub_def [of now']
      by (simp add: r)
  qed
qed

theorem removal_is_logged_once_witness:
  "remove_sub 9 7 3 ''client_disconnect'' (fst (remove_sub 8 7 3 ''backpressure'' (ss_manager sleepy))) =
    (fst (remove_sub 8 7 3 ''backpressure'' (ss_manager sleepy)), [])"
  by (rule removal_is_logged_once [OF sleepy_ok])

text \<open>
  The request's cursor plays no part in a subscription. The handler sends the streamer the
  same message and returns the same stream whatever cursor the request carries; the first
  subscription of a tag starts at cursor 0, so that it is offered the tag's whole backlog, and a
  later one takes over the tag's present cursor, so that it is offered no note up to it.
\<close>

theorem subscription_ignores_request_cursor:
  "stream_notes (req\<lparr>str_cursor := c\<rparr>) i ch ctl why q = stream_notes req i ch ctl why q
   \<and> tag_cursor (fst (add_sub now \<lparr>sf_id = i, sf_tag = str_tag req, sf_tx = ch\<rparr> m)) (str_tag req) =
       Some (case tag_cursor m (str_tag req) of None \<Rightarrow> 0 | Some c' \<Rightarrow> c')"
  by (auto simp: stream_notes_def tag_cursor_def add_sub_get Let_def split: option.splits)





section \<open>The loop\<close>

text \<open>
  Only a shutdown message ends the loop: it is still enabled after a run exactly when the run
  has no shutdown, whatever queries fail in it.
\<close>

theorem loop_ends_only_on_shutdown:
  "fst (stream_loop x bs s) \<longleftrightarrow> Received Shutdown \<notin> snd ` set bs"
proof (induction x bs s rule: stream_loop.induct)
  case (1 x s)
  then show ?case by simp
next
  case (2 x e b bs s)
  have c: "fst (streamer_step x e b s) = Ok False \<longleftrightarrow> b = Received Shutdown"
    by (rule streamer_step_continues)
  show ?case
    using 2 c by (cases "streamer_step x e b s") (auto split: result.splits bool.splits)
qed

text \<open>
  C36. One failing query loses the whole round. If the query of any tracked tag fails, the step
  returns an error and neither the manager nor the channels change: no subscriber of any tag is
  served in that round.
\<close>

theorem failing_query_aborts_round:
  assumes "bt_ok (mg_tags (ss_manager s))" and "bt_get (mg_tags (ss_manager s)) tag = Some td"
    and "\<And>tel. \<not> is_ok (fst (db_fetch_notes x (env_faults e tag) tag (td_cursor td) (env_dbs e tag) tel))"
  shows "\<exists>err tel'. streamer_step x e QueryReady s = (Err err, s\<lparr>ss_tel := tel'\<rparr>)"
proof -
  have "(tag, td) \<in> set (mg_tags (ss_manager s))"
    using btree.in_entries_iff [OF assms(1)] assms(2) by blast
  from query_tags_Err [where fs = "env_faults e" and dbs = "env_dbs e", OF this assms(3)]
  obtain err where "fst (query_updates x (env_faults e) (env_dbs e) (ss_manager s) (ss_tel s)) = Err err"
    unfolding query_updates_def by blast
  then show ?thesis
    by (cases "query_updates x (env_faults e) (env_dbs e) (ss_manager s) (ss_tel s)") auto
qed

theorem failing_query_aborts_round_witness:
  "\<exists>err tel'. streamer_step mini_extern
     (env1\<lparr>env_faults := (\<lambda>t. if t = 3 then no_faults\<lparr>f_pool := Some ''Timeout''\<rparr> else no_faults)\<rparr>)
     QueryReady waiting = (Err err, waiting\<lparr>ss_tel := tel'\<rparr>)"
proof (rule failing_query_aborts_round [OF mg_okD(1) [OF waiting_ok]])
  show "bt_get (mg_tags (ss_manager waiting)) 3 = Some \<lparr>td_cursor = 0, td_subs = [(7, entry1)]\<rparr>"
    by (simp add: stream_eval)
  let ?v = "env1\<lparr>env_faults := (\<lambda>t. if t = 3 then no_faults\<lparr>f_pool := Some ''Timeout''\<rparr> else no_faults)\<rparr>"
  show "\<not> is_ok (fst (db_fetch_notes mini_extern (env_faults ?v 3) 3
      (td_cursor \<lparr>td_cursor = 0, td_subs = [(7, entry1)]\<rparr>) (env_dbs ?v 3) tel))" for tel
    by (rule db_fetch_notes_pool_fault [of _ "''Timeout''"]) simp
qed

lemma received_run_chans:
  "QueryReady \<notin> set bs \<Longrightarrow> ss_chans (snd (stream_loop x (map (\<lambda>b. (e, b)) bs) s)) = ss_chans s"
proof (induction bs arbitrary: s)
  case Nil
  then show ?case by simp
next
  case (Cons b bs)
  then obtain msg where b: "b = Received msg"
    by (cases b) auto
  have "ss_chans (snd (stream_loop x (map (Pair e) bs) s')) = ss_chans s'" for s'
    using Cons by simp
  then show ?case
    by (cases msg) (simp_all add: b case_prod_beta)
qed

text \<open>
  C34. Control traffic starves the query. Every iteration restarts the 500 ms sleep, so while each
  control message comes less than 500 ms (plus the time of the queries) after the previous one,
  every iteration receives a message, no query completes, and the channels stay as they were.
\<close>

theorem control_traffic_starves_query:
  assumes "spaced (SLEEP + d) now msgs" and "n \<le> length msgs"
  shows "QueryReady \<notin> set (select_trace n d now msgs)
    \<and> ss_chans (snd (stream_loop x (map (\<lambda>b. (e, b)) (select_trace n d now msgs)) s)) = ss_chans s"
proof -
  have "QueryReady \<notin> set (select_trace n d now msgs)"
    by (auto simp: select_trace_spaced [OF assms])
  then show ?thesis
    using received_run_chans by blast
qed

theorem control_traffic_starves_query_witness:
  "QueryReady \<notin> set (select_trace 3 20 1000
       [(1400, WakerMsg 7 90), (1800, WakerMsg 8 91), (2300, WakerMsg 7 92)])
    \<and> ss_chans (snd (stream_loop mini_extern (map (\<lambda>b. (env1, b)) (select_trace 3 20 1000
       [(1400, WakerMsg 7 90), (1800, WakerMsg 8 91), (2300, WakerMsg 7 92)])) waiting)) = ss_chans waiting"
  by (rule control_traffic_starves_query) (simp_all add: SLEEP_def)

section \<open>The subscriber's stream\<close>

text \<open>A control channel that is full refuses every message.\<close>

definition full_channel :: "streamer_message \<Rightarrow> 'q \<Rightarrow> bool \<times> 'q" where
  "full_channel msg q = (False, q)"

text \<open>
  A full control channel ends a subscriber's stream and orphans its subscription: when a poll
  finds no update and the waker cannot be sent, the stream ends; dropping it then cannot send
  its removal either, so the streamer learns of neither. An update that is ready is returned all
  the same, and a channel closed by the streamer ends the stream without a message.
\<close>

theorem full_control_channel_ends_stream:
  "sub_poll_next sub Pending full_channel w q = (Ready None, q)
   \<and> sub_drop sub full_channel q = q
   \<and> sub_poll_next sub (Ready (Some (notes_pg, c))) ctl w q =
       (Ready (Some (Ok \<lparr>stu_notes = notes_pg, stu_cursor = c\<rparr>)), q)
   \<and> sub_poll_next sub (Ready None) ctl w q = (Ready None, q)"
  by (simp add: sub_poll_next_def sub_drop_def full_channel_def)

end
