(* ===== verification/DbSetup.thy ===== *)
theory DbSetup
  imports Examples "HOL-Library.Sublist"
begin

text \<open>
  How a database comes up: the configuration and \<open>connect\<close> (crates/node/src/database/mod.rs,
  sqlite/mod.rs), the set-up of each connection (sqlite/connection_manager.rs) and the schema
  migrations (sqlite/migrations.rs and the SQL files it embeds). The file system, the pool and
  the engine answer through arguments.
\<close>

section \<open>Configuration and \<open>connect\<close>\<close>

record database_config =
  dc_url :: string
  dc_retention_days :: u32

definition database_config_default :: database_config where
  "database_config_default = \<lparr>dc_url = '':memory:'', dc_retention_days = 30\<rparr>"

text \<open>\<open>url == ":memory:" || url.starts_with("file::memory:")\<close>.\<close>

definition is_in_memory :: "string \<Rightarrow> bool" where
  "is_in_memory url \<longleftrightarrow> url = '':memory:'' \<or> prefix ''file::memory:'' url"

text \<open>
  The files that exist, with \<open>create\<close> the answer of \<open>File::create\<close> and \<open>build\<close> that of the pool
  builder for a maximum size. The result is the pool's size and the files afterwards.
\<close>

definition db_connect ::
  "string set \<Rightarrow> (string \<Rightarrow> (unit, string) result) \<Rightarrow> (nat \<Rightarrow> (unit, string) result) \<Rightarrow> database_config
     \<Rightarrow> (nat, db_error) result \<times> string set" where
  "db_connect files create build config =
     (let url = dc_url config;
          needed = url \<notin> files \<and> \<not> sublist '':memory:'' url;
          created = (if needed then create url else Ok ())
      in case created of
           Err e \<Rightarrow> (Err (Configuration (''Failed to create database file: '' @ e)), files)
         | Ok _ \<Rightarrow>
             let files = (if needed then insert url files else files);
                 max_size = (if is_in_memory url then 1 else 16 :: nat)
             in (case build max_size of
                   Err e \<Rightarrow> (Err (Pool (''Failed to create connection pool: '' @ e)), files)
                 | Ok _ \<Rightarrow> (Ok max_size, files)))"

section \<open>Migrations\<close>

text \<open>A row before \<open>seq\<close>, and one before \<open>after_block_num\<close>.\<close>

record legacy_row =
  lr_id :: bytes
  lr_tag :: i64
  lr_header :: bytes
  lr_details :: bytes
  lr_created_at :: i64

text \<open>The schema a database file can be in: before, between and after the three migrations.\<close>

datatype schema =
    NoTable
  | InitialSetup "legacy_row list"
  | AddSeqCursor "(i64 \<times> legacy_row) list" i64
  | AddBlockContext notes_table

text \<open>
  \<open>INSERT INTO notes_new .. SELECT .. ORDER BY created_at ASC\<close> into the empty \<open>AUTOINCREMENT\<close>
  table; rows of equal \<open>created_at\<close> are taken in the order of the old table.
\<close>

definition assign_seq :: "legacy_row list \<Rightarrow> (i64 \<times> legacy_row) list" where
  "assign_seq rows =
     map (\<lambda>(k, r). (of_nat k, r)) (enumerate 1 (sort_key (\<lambda>r. sint (lr_created_at r)) rows))"

definition row_with_block_context :: "i64 \<times> legacy_row \<Rightarrow> note_row" where
  "row_with_block_context sr =
     \<lparr>nr_seq = fst sr, nr_id = lr_id (snd sr), nr_tag = lr_tag (snd sr), nr_header = lr_header (snd sr),
      nr_details = lr_details (snd sr), nr_created_at = lr_created_at (snd sr), nr_after_block_num = None\<rparr>"

text \<open>The \<open>up.sql\<close> that takes a schema to the next one; \<open>None\<close> when no migration is pending.\<close>

fun migrate_up :: "schema \<Rightarrow> schema option" where
  "migrate_up NoTable = Some (InitialSetup [])"
| "migrate_up (InitialSetup rows) = Some (AddSeqCursor (assign_seq rows) (of_nat (length rows)))"
| "migrate_up (AddSeqCursor rows high) =
     Some (AddBlockContext \<lparr>tbl_rows = map row_with_block_context rows, tbl_seq = high\<rparr>)"
| "migrate_up (AddBlockContext t) = None"

fun pending_migrations :: "schema \<Rightarrow> nat" where
  "pending_migrations NoTable = 3"
| "pending_migrations (InitialSetup rows) = 2"
| "pending_migrations (AddSeqCursor rows high) = 1"
| "pending_migrations (AddBlockContext t) = 0"

text \<open>
  The \<open>down.sql\<close> of a schema, which takes it back by one; the node itself never runs them. Copying
  rows with their \<open>seq\<close> into a new \<open>AUTOINCREMENT\<close> table sets its high-water mark to the largest of them,
  whatever the old table's was.
\<close>

definition row_without_block_context :: "note_row \<Rightarrow> i64 \<times> legacy_row" where
  "row_without_block_context r =
     (nr_seq r, \<lparr>lr_id = nr_id r, lr_tag = nr_tag r, lr_header = nr_header r, lr_details = nr_details r,
                 lr_created_at = nr_created_at r\<rparr>)"

definition copied_high :: "(i64 \<times> legacy_row) list \<Rightarrow> i64" where
  "copied_high rows = word_of_int (foldr max (map (\<lambda>r. sint (fst r)) rows) 0)"

fun migrate_down :: "schema \<Rightarrow> schema option" where
  "migrate_down NoTable = None"
| "migrate_down (InitialSetup rows) = Some NoTable"
| "migrate_down (AddSeqCursor rows high) = Some (InitialSetup (map snd rows))"
| "migrate_down (AddBlockContext t) =
     (let rows = map row_without_block_context (tbl_rows t) in Some (AddSeqCursor rows (copied_high rows)))"

lemma migrate_down_pending: "migrate_down s = Some s' \<Longrightarrow> pending_migrations s' = Suc (pending_migrations s)"
  by (cases s rule: migrate_down.cases) (auto simp: Let_def)

lemma migrate_up_pending: "migrate_up s = Some s' \<Longrightarrow> pending_migrations s = Suc (pending_migrations s')"
  by (cases s rule: migrate_up.cases) auto

text \<open>
  \<open>run_pending_migrations\<close>: each in a transaction of its own; the first that fails (\<open>fm\<close>, by how
  many are still pending) stops the run and leaves the earlier ones applied.
\<close>

function run_pending_migrations :: "(nat \<Rightarrow> string option) \<Rightarrow> schema \<Rightarrow> (unit, string) result \<times> schema" where
  "run_pending_migrations fm s =
     (case migrate_up s of
        None \<Rightarrow> (Ok (), s)
      | Some s' \<Rightarrow>
          (case fm (pending_migrations s) of
             Some e \<Rightarrow> (Err e, s)
           | None \<Rightarrow> run_pending_migrations fm s'))"
  by pat_completeness auto
termination
  by (relation "measure (\<lambda>(fm, s). pending_migrations s)") (auto dest: migrate_up_pending)

declare run_pending_migrations.simps [simp del]

definition apply_migrations :: "(nat \<Rightarrow> string option) \<Rightarrow> schema \<Rightarrow> (unit, db_error) result \<times> schema" where
  "apply_migrations fm s =
     (let (res, s) = run_pending_migrations fm s
      in (map_err (\<lambda>e. Migration (''Migration failed: '' @ e)) res, s))"

section \<open>Setting up a connection\<close>

datatype cm_error =
    ConnectionParamSetup diesel_error
  | InteractError string
  | ConnectionCreate string
  | PoolRecycle string

fun display_cm_error :: "cm_error \<Rightarrow> string" where
  "display_cm_error (ConnectionParamSetup e) = ''failed to apply connection parameter''"
| "display_cm_error (InteractError m) = ''SQLite pool interaction failed: '' @ m"
| "display_cm_error (ConnectionCreate e) = ''failed to create a new connection''"
| "display_cm_error (PoolRecycle e) = ''failed to recycle connection''"

text \<open>\<open>ConnectionManagerError::interact(msg, e)\<close>, on the rendered error.\<close>

definition cm_interact :: "string \<Rightarrow> string \<Rightarrow> cm_error" where
  "cm_interact msg e = InteractError (msg @ '' failed: '' @ e)"

text \<open>What a connection has set, and the schema of the database it is open on.\<close>

record connection =
  cn_wal :: bool
  cn_foreign_keys :: bool
  cn_busy_timeout :: nat
  cn_schema :: schema

text \<open>\<open>fp k\<close>: the engine fails the \<open>k\<close>-th pragma.\<close>

definition configure_connection_on_creation ::
  "(nat \<Rightarrow> diesel_error option) \<Rightarrow> (nat \<Rightarrow> string option) \<Rightarrow> connection
     \<Rightarrow> (unit, cm_error) result \<times> connection" where
  "configure_connection_on_creation fp fm conn =
     (case fp 0 of Some e \<Rightarrow> (Err (ConnectionParamSetup e), conn) | None \<Rightarrow>
      let conn = conn\<lparr>cn_wal := True\<rparr> in
      case fp 1 of Some e \<Rightarrow> (Err (ConnectionParamSetup e), conn) | None \<Rightarrow>
      let conn = conn\<lparr>cn_foreign_keys := True\<rparr> in
      case fp 2 of Some e \<Rightarrow> (Err (ConnectionParamSetup e), conn) | None \<Rightarrow>
      let conn = conn\<lparr>cn_busy_timeout := 30000\<rparr>;
          (res, s) = apply_migrations fm (cn_schema conn);
          conn = conn\<lparr>cn_schema := s\<rparr>
      in (map_err (\<lambda>e. ConnectionParamSetup (DieselDatabaseError UnableToSendCommand
                          (''Migration failed: '' @ display_db_error e))) res, conn))"

text \<open>\<open>create\<close>: a connection of the pool, opened on a database with the given schema.\<close>

definition cm_create ::
  "(schema \<Rightarrow> (connection, string) result) \<Rightarrow> string option \<Rightarrow> (nat \<Rightarrow> diesel_error option)
     \<Rightarrow> (nat \<Rightarrow> string option) \<Rightarrow> schema \<Rightarrow> (connection, cm_error) result \<times> schema" where
  "cm_create open_conn fi fp fm s =
     (case open_conn s of
        Err e \<Rightarrow> (Err (ConnectionCreate e), s)
      | Ok conn \<Rightarrow>
          (case fi of
             Some e \<Rightarrow> (Err (cm_interact ''Connection setup'' e), s)
           | None \<Rightarrow>
               (case configure_connection_on_creation fp fm conn of
                  (Err e, conn) \<Rightarrow> (Err e, cn_schema conn)
                | (Ok _, conn) \<Rightarrow> (Ok conn, cn_schema conn))))"

definition cm_recycle :: "(connection \<Rightarrow> (unit, string) result) \<Rightarrow> connection \<Rightarrow> (unit, cm_error) result" where
  "cm_recycle recycle conn = map_err PoolRecycle (recycle conn)"

section \<open>Facts\<close>

lemma run_migrations_done: "run_pending_migrations fm (AddBlockContext t) = (Ok (), AddBlockContext t)"
  by (simp add: run_pending_migrations.simps)

lemma run_migrations_Ok:
  "run_pending_migrations fm s = (Ok u, s') \<Longrightarrow> pending_migrations s' = 0"
proof (induction fm s rule: run_pending_migrations.induct)
  case (1 fm s)
  show ?case
  proof (cases "migrate_up s")
    case None
    then show ?thesis
      using 1(2) by (cases s rule: migrate_up.cases) (auto simp: run_pending_migrations.simps)
  next
    case (Some s1)
    with 1(2) show ?thesis
      by (auto simp: run_pending_migrations.simps [of fm s] split: option.splits intro: 1(1))
  qed
qed

lemma run_migrations_mono: "pending_migrations (snd (run_pending_migrations fm s)) \<le> pending_migrations s"
proof (induction fm s rule: run_pending_migrations.induct)
  case (1 fm s)
  show ?case
  proof (cases "migrate_up s")
    case None
    then show ?thesis
      by (simp add: run_pending_migrations.simps [of fm s])
  next
    case (Some s1)
    then show ?thesis
      using 1 [OF Some] migrate_up_pending [OF Some]
      by (auto simp: run_pending_migrations.simps [of fm s] split: option.splits)
  qed
qed

text \<open>The table the migrations make of a legacy one.\<close>

definition migrated_table :: "legacy_row list \<Rightarrow> notes_table" where
  "migrated_table rows = \<lparr>tbl_rows = map row_with_block_context (assign_seq rows), tbl_seq = of_nat (length rows)\<rparr>"

lemma run_migrations_initial:
  "run_pending_migrations (\<lambda>_. None) (InitialSetup rows) = (Ok (), AddBlockContext (migrated_table rows))"
  by (simp add: run_pending_migrations.simps [of _ "InitialSetup rows"]
      run_pending_migrations.simps [of _ "AddSeqCursor (assign_seq rows) h" for h]
      run_migrations_done migrated_table_def)

lemma map_enumerate_fst: "map (\<lambda>e. f (fst e)) (enumerate n xs) = map f [n..<n + length xs]"
  by (induction xs arbitrary: n) (simp_all add: upt_conv_Cons del: upt_Suc)

lemma map_enumerate_snd: "map (\<lambda>e. f (snd e)) (enumerate n xs) = map f xs"
  by (induction xs arbitrary: n) simp_all

lemmas migrated_simps = migrated_table_def assign_seq_def row_with_block_context_def comp_def case_prod_unfold

lemma migrated_keys:
  assumes "length rows < 2 ^ 63"
  shows "map row_key (tbl_rows (migrated_table rows)) = map int [1..<Suc (length rows)]"
proof -
  have "map row_key (tbl_rows (migrated_table rows)) = map (\<lambda>k. sint (of_nat k :: i64)) [1..<Suc (length rows)]"
    by (simp add: migrated_simps map_enumerate_fst [where f = "\<lambda>k. sint (word_of_nat k :: i64)"] del: upt_Suc)
  also have "\<dots> = map int [1..<Suc (length rows)]"
    using assms by (intro map_cong) (auto simp: sint_of_nat_i64 simp del: upt_Suc)
  finally show ?thesis .
qed

lemma migrated_contents:
  "map (\<lambda>r. (nr_id r, nr_tag r, nr_header r, nr_details r, nr_created_at r)) (tbl_rows (migrated_table rows)) =
   map (\<lambda>r. (lr_id r, lr_tag r, lr_header r, lr_details r, lr_created_at r))
     (sort_key (\<lambda>r. sint (lr_created_at r)) rows)"
  by (simp add: migrated_simps
      map_enumerate_snd [where f = "\<lambda>r. (lr_id r, lr_tag r, lr_header r, lr_details r, lr_created_at r)"])

lemma migrated_ok:
  assumes "length rows < 2 ^ 63" and "distinct (map lr_id rows)"
  shows "table_ok (migrated_table rows)"
proof -
  let ?t = "migrated_table rows"
  have k: "set (map row_key (tbl_rows ?t)) = {1..int (length rows)}"
    unfolding migrated_keys [OF assms(1)] using image_int_atLeastLessThan [of 1 "Suc (length rows)"]
    by (auto simp del: upt_Suc)
  have h: "sint (tbl_seq ?t) = int (length rows)"
    using assms(1) by (simp add: migrated_table_def sint_of_nat_i64)
  have "map nr_id (tbl_rows ?t) = map lr_id (sort_key (\<lambda>r. sint (lr_created_at r)) rows)"
    using arg_cong [OF migrated_contents [of rows], of "map fst"] by (simp add: comp_def)
  moreover have "distinct (map lr_id (sort_key (\<lambda>r. sint (lr_created_at r)) rows))"
    using assms(2) by (simp add: distinct_map)
  moreover have "sorted_wrt (<) (map row_key (tbl_rows ?t))"
    unfolding migrated_keys [OF assms(1)] by (simp add: sorted_wrt_map sorted_wrt_upt del: upt_Suc)
  moreover have "0 < row_key r \<and> row_key r \<le> int (length rows)" if "r \<in> set (tbl_rows ?t)" for r
  proof -
    have "row_key r \<in> set (map row_key (tbl_rows ?t))"
      using that by simp
    then show ?thesis
      unfolding k by simp
  qed
  ultimately show ?thesis
    unfolding table_ok_def h by simp
qed

section \<open>Properties\<close>

text \<open>
  C33. Migrating a database of the first schema keeps every note. The three migrations succeed, the
  new table is well formed, it holds exactly the old rows, ordered by creation time, under the
  \<open>seq\<close> values 1 to n and without block numbers, and a second run changes nothing.
\<close>

theorem migration_preserves_notes:
  assumes "length rows < 2 ^ 63" and "distinct (map lr_id rows)"
  shows "\<exists>t. apply_migrations (\<lambda>_. None) (InitialSetup rows) = (Ok (), AddBlockContext t)
    \<and> table_ok t
    \<and> map row_key (tbl_rows t) = map int [1..<Suc (length rows)]
    \<and> map (\<lambda>r. (nr_id r, nr_tag r, nr_header r, nr_details r, nr_created_at r)) (tbl_rows t) =
        map (\<lambda>r. (lr_id r, lr_tag r, lr_header r, lr_details r, lr_created_at r))
          (sort_key (\<lambda>r. sint (lr_created_at r)) rows)
    \<and> (\<forall>r \<in> set (tbl_rows t). nr_after_block_num r = None)
    \<and> apply_migrations fm (AddBlockContext t) = (Ok (), AddBlockContext t)"
proof (intro exI [of _ "migrated_table rows"] conjI)
  show "apply_migrations (\<lambda>_. None) (InitialSetup rows) = (Ok (), AddBlockContext (migrated_table rows))"
    by (simp add: apply_migrations_def run_migrations_initial)
  show "apply_migrations fm (AddBlockContext (migrated_table rows)) = (Ok (), AddBlockContext (migrated_table rows))"
    by (simp add: apply_migrations_def run_migrations_done)
  show "\<forall>r \<in> set (tbl_rows (migrated_table rows)). nr_after_block_num r = None"
    by (auto simp: migrated_simps)
qed (rule migrated_ok [OF assms] migrated_keys [OF assms(1)] migrated_contents)+

theorem migration_preserves_notes_witness:
  "\<exists>t. apply_migrations (\<lambda>_. None) (InitialSetup
      [\<lparr>lr_id = [8], lr_tag = 5, lr_header = [8, 5], lr_details = [], lr_created_at = 60\<rparr>,
       \<lparr>lr_id = [7], lr_tag = 3, lr_header = [7, 3], lr_details = [1, 2], lr_created_at = 50\<rparr>]) =
      (Ok (), AddBlockContext t)
    \<and> map row_key (tbl_rows t) = [1, 2] \<and> map nr_id (tbl_rows t) = [[7], [8]]"
proof -
  let ?rows = "[\<lparr>lr_id = [8], lr_tag = 5, lr_header = [8, 5], lr_details = [], lr_created_at = 60\<rparr>,
       \<lparr>lr_id = [7], lr_tag = 3, lr_header = [7, 3], lr_details = [1, 2], lr_created_at = 50\<rparr>]"
  have "length ?rows < 2 ^ 63" "distinct (map lr_id ?rows)"
    by simp_all
  from migration_preserves_notes [OF this, of "\<lambda>_. None"] obtain t where
      "apply_migrations (\<lambda>_. None) (InitialSetup ?rows) = (Ok (), AddBlockContext t)"
      "map row_key (tbl_rows t) = map int [1..<Suc (length ?rows)]"
      "map (\<lambda>r. (nr_id r, nr_tag r, nr_header r, nr_details r, nr_created_at r)) (tbl_rows t) =
        map (\<lambda>r. (lr_id r, lr_tag r, lr_header r, lr_details r, lr_created_at r))
          (sort_key (\<lambda>r. sint (lr_created_at r)) ?rows)"
    by blast
  moreover have "map nr_id (tbl_rows t) =
      map fst (map (\<lambda>r. (nr_id r, nr_tag r, nr_header r, nr_details r, nr_created_at r)) (tbl_rows t))"
    by (simp add: comp_def)
  ultimately show ?thesis
    by (intro exI [of _ t] conjI) (simp_all only: list.map fst_conv, simp_all)
qed

text \<open>
  A connection is handed out only when its database is fully migrated and the write-ahead log,
  the foreign keys and the 30 s busy timeout are set; whatever fails on the way, the migrations
  already applied stay, and no schema goes back.
\<close>

theorem connection_is_configured:
  assumes "\<And>s conn. open_conn s = Ok conn \<Longrightarrow> cn_schema conn = s"
  shows "case cm_create open_conn fi fp fm s of
      (Ok conn, s') \<Rightarrow> cn_wal conn \<and> cn_foreign_keys conn \<and> cn_busy_timeout conn = 30000
        \<and> cn_schema conn = s' \<and> pending_migrations s' = 0
    | (Err e, s') \<Rightarrow> pending_migrations s' \<le> pending_migrations s"
proof -
  have m: "pending_migrations s' \<le> pending_migrations s" if "run_pending_migrations fm s = (r, s')" for s s' r
    using run_migrations_mono [of fm s] that by simp
  show ?thesis
    using assms
    by (auto simp: cm_create_def configure_connection_on_creation_def apply_migrations_def Let_def
        split: option.splits result.splits prod.splits dest: run_migrations_Ok m)
qed

definition open_ok :: "schema \<Rightarrow> (connection, string) result" where
  "open_ok s = Ok \<lparr>cn_wal = False, cn_foreign_keys = False, cn_busy_timeout = 0, cn_schema = s\<rparr>"

theorem connection_is_configured_witness:
  "case cm_create open_ok None (\<lambda>_. None) (\<lambda>_. None) NoTable of
      (Ok conn, s') \<Rightarrow> cn_wal conn \<and> cn_foreign_keys conn \<and> cn_busy_timeout conn = 30000
        \<and> cn_schema conn = s' \<and> pending_migrations s' = 0
    | (Err e, s') \<Rightarrow> pending_migrations s' \<le> pending_migrations NoTable"
  by (rule connection_is_configured) (auto simp: open_ok_def)

text \<open>
  \<open>connect\<close> gives an in-memory database one connection, so that all calls see the same data,
  and never creates a file for it; every other database gets a pool of 16, and a file-backed one
  exists as a file afterwards.
\<close>

theorem connect_pool_and_file:
  assumes "db_connect files create build config = (Ok n, files')"
  shows "n = (if is_in_memory (dc_url config) then 1 else 16)
    \<and> (is_in_memory (dc_url config) \<longrightarrow> files' = files)
    \<and> (\<not> sublist '':memory:'' (dc_url config) \<longrightarrow> dc_url config \<in> files' \<and> \<not> is_in_memory (dc_url config))
    \<and> files \<subseteq> files'"
proof -
  have m: "sublist '':memory:'' url" if "is_in_memory url" for url :: string
  proof (cases "url = '':memory:''")
    case True
    then show ?thesis by simp
  next
    case False
    then have "prefix ''file::memory:'' url"
      using that unfolding is_in_memory_def by blast
    then obtain rest where "url = ''file::memory:'' @ rest"
      by (rule prefixE)
    then have "url = ''file:'' @ '':memory:'' @ rest"
      by simp
    then show ?thesis
      unfolding sublist_def by blast
  qed
  show ?thesis
    using assms m by (auto simp: db_connect_def Let_def split: if_splits result.splits)
qed

theorem connect_pool_and_file_witness:
  "(1 :: nat) = (if is_in_memory (dc_url database_config_default) then 1 else 16)"
proof -
  have "db_connect {} (\<lambda>_. Ok ()) (\<lambda>_. Ok ()) database_config_default = (Ok 1, {})"
    by (simp add: db_connect_def database_config_default_def is_in_memory_def)
  from connect_pool_and_file [OF this] show ?thesis
    by simp
qed

text \<open>
  Taking the block context back and adding it again keeps the rows and their \<open>seq\<close> and loses the block
  numbers; it also loses the table's high-water mark, which falls to the largest \<open>seq\<close> still stored. So
  the \<open>seq\<close> values of notes the cleanup removed from the end are given out again, below the cursors of
  clients that have seen them.
\<close>

theorem downgrade_forgets_high_water_mark:
  assumes "table_ok t"
  shows "\<exists>s t'. migrate_down (AddBlockContext t) = Some s \<and> migrate_up s = Some (AddBlockContext t')
    \<and> tbl_rows t' = map (\<lambda>r. r\<lparr>nr_after_block_num := None\<rparr>) (tbl_rows t)
    \<and> sint (tbl_seq t') = foldr max (map row_key (tbl_rows t)) 0 \<and> sint (tbl_seq t') \<le> sint (tbl_seq t)"
proof -
  let ?ks = "map row_key (tbl_rows t)"
  have b: "0 \<le> foldr max ks 0 \<and> (foldr max ks 0 = 0 \<or> foldr max ks 0 \<in> set ks)" for ks :: "int list"
    by (induction ks) (auto simp: max_def)
  have k: "row_key r \<le> sint (tbl_seq t)" if "r \<in> set (tbl_rows t)" for r
    using table_okD(3) [OF assms that] .
  have le: "foldr max ?ks 0 \<le> sint (tbl_seq t)"
    using b [of ?ks] k table_okD(4) [OF assms] by auto
  have lt: "sint (tbl_seq t) < 2 ^ 63"
    using sint_lt [of "tbl_seq t"] by simp
  have s: "sint (word_of_int (foldr max ?ks 0) :: i64) = foldr max ?ks 0"
    using b [of ?ks] le lt by (intro sint_word_of_int_i64) auto
  have m: "copied_high (map row_without_block_context (tbl_rows t)) = word_of_int (foldr max ?ks 0)"
    by (simp add: copied_high_def row_without_block_context_def comp_def)
  show ?thesis
    using s le by (intro exI conjI) (auto simp: Let_def m row_with_block_context_def row_without_block_context_def)
qed

theorem downgrade_forgets_high_water_mark_witness:
  "\<exists>s t'. migrate_down (AddBlockContext \<lparr>tbl_rows = [], tbl_seq = 7\<rparr>) = Some s \<and> migrate_up s = Some (AddBlockContext t')
    \<and> sint (tbl_seq t') = 0"
proof -
  have "table_ok \<lparr>tbl_rows = [], tbl_seq = 7\<rparr>"
    by (simp add: table_ok_def)
  from downgrade_forgets_high_water_mark [OF this] show ?thesis
    by auto
qed

end
