(* ===== verification/Maintenance.thy ===== *)
theory Maintenance
  imports Examples
begin

text \<open>
  The maintenance task (crates/node/src/database/maintenance.rs): its state, one step (timer,
  cleanup, sleep) and the loop of its entrypoint, with its properties. \<open>tokio::time::sleep\<close> is the
  environment's: a step returns for how many seconds it slept.
\<close>

section \<open>The task\<close>

datatype maintenance_status = Stopped | Running

record database_maintenance =
  dm_retention_days :: u32
  dm_state :: maintenance_status

definition maintenance_new :: "u32 \<Rightarrow> database_maintenance" where
  "maintenance_new retention_days = \<lparr>dm_retention_days = retention_days, dm_state = Stopped\<rparr>"

definition is_active :: "database_maintenance \<Rightarrow> bool" where
  "is_active m = (case dm_state m of Running \<Rightarrow> True | Stopped \<Rightarrow> False)"

text \<open>Ten minutes, in seconds: \<open>Duration::from_mins(10)\<close>.\<close>

definition CLEANUP_PERIOD :: nat where
  "CLEANUP_PERIOD = 10 * 60"

text \<open>
  \<open>step\<close>: the \<open>?\<close> on the cleanup leaves before \<open>finish\<close> and before the sleep; the timer lives to the
  end of the function, that is, past the sleep. \<open>None\<close>: the cleanup panicked.
\<close>

definition maintenance_step ::
  "('h, 't) extern \<Rightarrow> faults \<Rightarrow> 't \<Rightarrow> database_maintenance \<Rightarrow> notes_table \<Rightarrow> telemetry
     \<Rightarrow> ((unit, db_error) result \<times> nat \<times> notes_table \<times> telemetry) option" where
  "maintenance_step x f now m db tel =
     (let (timer, tel) = db_maintenance_cleanup_notes tel in
      case db_cleanup_old_notes x f now (dm_retention_days m) db of
        None \<Rightarrow> None
      | Some (Err e, db) \<Rightarrow> Some (Err e, 0, db, drop_timer timer tel)
      | Some (Ok deleted, db) \<Rightarrow>
          let tel = finish timer ''ok'' tel
          in Some (Ok (), CLEANUP_PERIOD, db, drop_timer timer tel))"

text \<open>
  \<open>entrypoint\<close>, over the failures and the times its iterations meet: whether the task is still
  alive, for how long it has slept in all, the table and the telemetry. An error is logged only.
\<close>

fun maintenance_loop ::
  "('h, 't) extern \<Rightarrow> (faults \<times> 't) list \<Rightarrow> database_maintenance \<Rightarrow> nat \<Rightarrow> notes_table \<Rightarrow> telemetry
     \<Rightarrow> bool \<times> nat \<times> notes_table \<times> telemetry" where
  "maintenance_loop x [] m slept db tel = (is_active m, slept, db, tel)"
| "maintenance_loop x ((f, now) # es) m slept db tel =
     (if is_active m then
        (case maintenance_step x f now m db tel of
           None \<Rightarrow> (False, slept, db, tel)
         | Some (res, pause, db, tel) \<Rightarrow> maintenance_loop x es m (slept + pause) db tel)
      else (False, slept, db, tel))"

definition maintenance_entrypoint ::
  "('h, 't) extern \<Rightarrow> (faults \<times> 't) list \<Rightarrow> database_maintenance \<Rightarrow> notes_table \<Rightarrow> telemetry
     \<Rightarrow> bool \<times> nat \<times> notes_table \<times> telemetry" where
  "maintenance_entrypoint x es m db tel = maintenance_loop x es (m\<lparr>dm_state := Running\<rparr>) 0 db tel"

section \<open>Facts\<close>

lemma maintenance_step_table:
  assumes "db_ok x t" and "maintenance_step x f now m t tel = Some (r, k, t', tel')"
  shows "db_ok x t'" "tbl_seq t' = tbl_seq t" "set (tbl_rows t') \<subseteq> set (tbl_rows t)"
proof -
  obtain q where c: "db_cleanup_old_notes x f now (dm_retention_days m) t = Some (q, t')"
    using assms(2) by (auto simp: maintenance_step_def Let_def split: prod.splits option.splits result.splits)
  show "db_ok x t'"
    by (rule db_cleanup_ok [OF assms(1) c])
  show "tbl_seq t' = tbl_seq t" "set (tbl_rows t') \<subseteq> set (tbl_rows t)"
    by (cases rule: db_cleanup_cases [OF c]; simp)+
qed

section \<open>Properties\<close>


text \<open>A total instance of the clock: dates in microseconds whose subtraction saturates.\<close>

definition total_extern :: "(mini_header, i64) extern" where
  "total_extern = mini_extern\<lparr>ts_minus_days := (\<lambda>t n. Some (word_of_int (max 0 (sint t - sint n * 86400000000))))\<rparr>"



text \<open>
  C32. A failing database makes the task spin: an error returns before the sleep, so any number of
  consecutive failing cleanups runs without a single pause between them.
\<close>

theorem failing_maintenance_never_sleeps:
  assumes "\<And>f now. (f, now) \<in> set es \<Longrightarrow> \<exists>err t'. db_cleanup_old_notes x f now days t = Some (Err err, t')"
  shows "\<exists>tel'. maintenance_entrypoint x es (maintenance_new days) t tel = (True, 0, t, tel')
    \<and> counter_total DbMaintenanceCleanupNotesCount (tel_events tel') =
        counter_total DbMaintenanceCleanupNotesCount (tel_events tel) + length es"
proof -
  let ?m = "\<lparr>dm_retention_days = days, dm_state = Running\<rparr>"
  have "\<exists>tel'. maintenance_loop x es ?m 0 t tel = (True, 0, t, tel')
    \<and> counter_total DbMaintenanceCleanupNotesCount (tel_events tel') =
        counter_total DbMaintenanceCleanupNotesCount (tel_events tel) + length es"
    using assms
  proof (induction es arbitrary: tel)
    case Nil
    then show ?case by (simp add: is_active_def)
  next
    case (Cons e es)
    obtain f now where e: "e = (f, now)" by fastforce
    obtain err t' where k: "db_cleanup_old_notes x f now days t = Some (Err err, t')"
      using Cons.prems [of f now] e by auto
    have "t' = t"
      by (rule db_cleanup_ErrD [OF k])
    then obtain tel1 where st: "maintenance_step x f now ?m t tel = Some (Err err, 0, t, tel1)"
        "counter_total DbMaintenanceCleanupNotesCount (tel_events tel1) =
          counter_total DbMaintenanceCleanupNotesCount (tel_events tel) + 1"
      by (simp add: maintenance_step_def k timer_defs Let_def)
    have p: "\<exists>err t'. db_cleanup_old_notes x f now days t = Some (Err err, t')" if "(f, now) \<in> set es" for f now
      by (rule Cons.prems [of f now]) (simp add: that)
    from Cons.IH [where tel = tel1, OF p] st show ?case
      by (simp add: e is_active_def)
  qed
  then show ?thesis
    by (simp add: maintenance_entrypoint_def maintenance_new_def)
qed

theorem failing_maintenance_never_sleeps_witness:
  "\<exists>tel'. maintenance_entrypoint total_extern (replicate 5 (no_faults\<lparr>f_pool := Some ''Timeout''\<rparr>, 50))
      (maintenance_new 30) table2 tel0 = (True, 0, table2, tel')
    \<and> counter_total DbMaintenanceCleanupNotesCount (tel_events tel') =
        counter_total DbMaintenanceCleanupNotesCount (tel_events tel0) +
          length (replicate 5 (no_faults\<lparr>f_pool := Some ''Timeout''\<rparr>, 50 :: i64))"
  by (rule failing_maintenance_never_sleeps)
    (auto simp: total_extern_def db_cleanup_old_notes_def transact_def)



text \<open>
  The cleanup's duration is recorded a second time with the pause in it: the timer of a
  successful step is dropped after the sleep, so the histogram receives, besides the cleanup's
  duration, one labelled \<open>dropped\<close> of at least ten minutes (when ten minutes pass between the
  clock readings before and after the sleep).
\<close>

theorem cleanup_duration_includes_pause:
  assumes "maintenance_step x f now m t tel = Some (Ok u, k, t', tel')"
    and "tel_clock tel (tel_reads tel) \<le> tel_clock tel (tel_reads tel + 1)"
    and "tel_clock tel (tel_reads tel + 1) + CLEANUP_PERIOD * 1000000000 \<le> tel_clock tel (tel_reads tel + 2)"
  shows "\<exists>d. tel_events tel' = tel_events tel @
      [CounterAdd DbMaintenanceCleanupNotesCount 1 [(''operation'', ''db.maintenance.cleanup_old_notes'')],
       HistDuration DbMaintenanceCleanupNotesDuration
         (int (tel_clock tel (tel_reads tel + 1)) - int (tel_clock tel (tel_reads tel)))
         [(''operation'', ''db.maintenance.cleanup_old_notes''), (''status'', ''ok'')],
       HistDuration DbMaintenanceCleanupNotesDuration d
         [(''operation'', ''db.maintenance.cleanup_old_notes''), (''status'', ''dropped'')]]
    \<and> 600000000000 \<le> d"
  using assms
  by (auto simp: maintenance_step_def timer_defs Let_def CLEANUP_PERIOD_def
      split: option.splits prod.splits result.splits)

definition tel_slow :: telemetry where
  "tel_slow = \<lparr>tel_clock = (\<lambda>n. n * 600000000000), tel_reads = 0, tel_events = []\<rparr>"

theorem cleanup_duration_includes_pause_witness:
  "\<exists>d t' tel'. maintenance_step mini_extern no_faults 86400000060 (maintenance_new 1) table2 tel_slow =
      Some (Ok (), CLEANUP_PERIOD, t', tel')
    \<and> HistDuration DbMaintenanceCleanupNotesDuration d
         [(''operation'', ''db.maintenance.cleanup_old_notes''), (''status'', ''dropped'')] \<in> set (tel_events tel')
    \<and> 600000000000 \<le> d"
proof -
  obtain t' tel' where s: "maintenance_step mini_extern no_faults 86400000060 (maintenance_new 1) table2 tel_slow =
      Some (Ok (), CLEANUP_PERIOD, t', tel')"
    by (simp add: maintenance_step_def maintenance_new_def db_cleanup_old_notes_def mini_extern_def
        i64_of_u32_def sql_delete_older_def timer_defs Let_def)
  from cleanup_duration_includes_pause [OF this] s show ?thesis
    by (fastforce simp: tel_slow_def CLEANUP_PERIOD_def)
qed

end
