(* ===== verification/Service.thy ===== *)
theory Service
  imports DbSetup Maintenance Streamer
begin

text \<open>
  The node around the handlers: its configuration and start-up (crates/node/src/node/mod.rs,
  bin/node/src/main.rs), the layers \<open>serve\<close> puts before the services (node/grpc/mod.rs), the
  logging configuration (logging.rs), the instrument table (metrics.rs) and the dispatch of the
  generated service. What the HTTP stack, the exporters and the argument parser answer are
  arguments.
\<close>

section \<open>Serving\<close>

datatype grpc_service = HealthService | ReflectionService | NoteTransportService

record server_stack =
  ss_accept_http1 :: bool
  ss_cors_any :: bool
  ss_grpc_web :: bool
  ss_concurrency_limit :: nat
  ss_timeout_secs :: u64
  ss_services :: "grpc_service list"

definition server_stack_of :: "grpc_server_config \<Rightarrow> server_stack" where
  "server_stack_of cfg =
     \<lparr>ss_accept_http1 = True, ss_cors_any = True, ss_grpc_web = True,
      ss_concurrency_limit = gc_max_connections cfg,
      ss_timeout_secs = of_nat (gc_request_timeout cfg),
      ss_services = [HealthService, ReflectionService, NoteTransportService]\<rparr>"

text \<open>\<open>format!("{}:{}", host, port)\<close>.\<close>

definition server_address :: "grpc_server_config \<Rightarrow> string" where
  "server_address cfg = gc_host cfg @ '':'' @ show_nat (unat (gc_port cfg))"

text \<open>
  \<open>GrpcServer::serve\<close>: \<open>reflection\<close> is the answer of the reflection builder, \<open>parse_addr\<close> that of
  \<open>SocketAddr::from_str\<close>, \<open>listen\<close> what serving the stack on the address ended with.
\<close>

definition serve ::
  "(unit, string) result \<Rightarrow> (string \<Rightarrow> ('a, string) result) \<Rightarrow> (server_stack \<Rightarrow> 'a \<Rightarrow> (unit, string) result)
     \<Rightarrow> grpc_server_config \<Rightarrow> (unit, node_error) result" where
  "serve reflection parse_addr listen cfg =
     res_bind (map_err (\<lambda>e. ErrInternal (''Failed to build reflection service: '' @ e)) reflection) (\<lambda>_.
     res_bind (map_err (\<lambda>e. ErrInternal (''Invalid address: '' @ e)) (parse_addr (server_address cfg))) (\<lambda>addr.
     map_err (\<lambda>e. ErrInternal (''Server error: '' @ e)) (listen (server_stack_of cfg) addr)))"

text \<open>The capacities of the control channel and of a subscription's channel.\<close>

definition CONTROL_CAPACITY :: nat where
  "CONTROL_CAPACITY = 128"

definition SUB_CAPACITY :: nat where
  "SUB_CAPACITY = 32"

text \<open>
  A bounded channel as a queue, the instance of the channel arguments of theory \<open>Streamer\<close> that a
  capacity gives: a send succeeds exactly while there is room.
\<close>

definition bounded_send :: "nat \<Rightarrow> 'a \<Rightarrow> 'a list \<Rightarrow> bool \<times> 'a list" where
  "bounded_send cap a q = (if length q < cap then (True, q @ [a]) else (False, q))"

section \<open>The node\<close>

record node_config =
  nc_grpc :: grpc_server_config
  nc_database :: database_config

definition node_config_default :: node_config where
  "node_config_default = \<lparr>nc_grpc = grpc_config_default, nc_database = database_config_default\<rparr>"

record node =
  nd_grpc :: grpc_server_config
  nd_maintenance :: database_maintenance
  nd_pool :: nat

text \<open>\<open>Node::init\<close>, the effect of \<open>connect\<close> on the file system included.\<close>

definition node_init ::
  "string set \<Rightarrow> (string \<Rightarrow> (unit, string) result) \<Rightarrow> (nat \<Rightarrow> (unit, string) result) \<Rightarrow> node_config
     \<Rightarrow> (node, node_error) result \<times> string set" where
  "node_init files create build config =
     (let (res, files) = db_connect files create build (nc_database config)
      in (res_bind (map_err ErrDatabase res) (\<lambda>pool.
            Ok \<lparr>nd_grpc = nc_grpc config,
                nd_maintenance = maintenance_new (dc_retention_days (nc_database config)),
                nd_pool = pool\<rparr>), files))"

text \<open>\<open>Node::entrypoint\<close>: the maintenance task is spawned, an error of the server is only logged.\<close>

definition node_entrypoint :: "(grpc_server_config \<Rightarrow> (unit, node_error) result) \<Rightarrow> node \<Rightarrow> database_maintenance \<times> node_error option" where
  "node_entrypoint serve_it n =
     ((nd_maintenance n)\<lparr>dm_state := Running\<rparr>,
      case serve_it (nd_grpc n) of Ok _ \<Rightarrow> None | Err e \<Rightarrow> Some e)"

section \<open>The command line\<close>

record args =
  ar_host :: string
  ar_port :: u16
  ar_database_url :: string
  ar_retention_days :: u32
  ar_max_note_size :: nat
  ar_max_connections :: nat
  ar_request_timeout :: nat

definition args_default :: args where
  "args_default =
     \<lparr>ar_host = ''127.0.0.1'', ar_port = 57292, ar_database_url = '':memory:'', ar_retention_days = 30,
      ar_max_note_size = 512000, ar_max_connections = 4096, ar_request_timeout = 4\<rparr>"

definition config_of_args :: "args \<Rightarrow> node_config" where
  "config_of_args a =
     \<lparr>nc_grpc = \<lparr>gc_host = ar_host a, gc_port = ar_port a, gc_max_note_size = ar_max_note_size a,
                 gc_max_connections = ar_max_connections a, gc_request_timeout = ar_request_timeout a\<rparr>,
      nc_database = \<lparr>dc_url = ar_database_url a, dc_retention_days = ar_retention_days a\<rparr>\<rparr>"

section \<open>Logging\<close>

text \<open>\<open>std::env::var\<close>.\<close>

datatype env_var = NotPresent | NotUnicode | Present string

datatype open_telemetry = Enabled string | Disabled

record tracing_config =
  tc_otel :: open_telemetry
  tc_json :: bool

definition var_ok :: "(string \<Rightarrow> env_var) \<Rightarrow> string \<Rightarrow> string option" where
  "var_ok env n = (case env n of Present s \<Rightarrow> Some s | _ \<Rightarrow> None)"

text \<open>\<open>str::parse::<bool>\<close>.\<close>

definition parse_bool :: "string \<Rightarrow> bool option" where
  "parse_bool s = (if s = ''true'' then Some True else if s = ''false'' then Some False else None)"

definition from_otel_env :: "(string \<Rightarrow> env_var) \<Rightarrow> tracing_config" where
  "from_otel_env env =
     (let endpoint = (case var_ok env ''OTEL_EXPORTER_OTLP_TRACES_ENDPOINT'' of
                        Some s \<Rightarrow> Some s
                      | None \<Rightarrow> var_ok env ''OTEL_EXPORTER_OTLP_ENDPOINT'');
          endpoint = (case endpoint of Some s \<Rightarrow> if s = [] then None else Some s | None \<Rightarrow> None);
          json = (case var_ok env ''JSON_LOGGING'' of Some s \<Rightarrow> s | None \<Rightarrow> ''false'')
      in \<lparr>tc_otel = (case endpoint of Some e \<Rightarrow> Enabled e | None \<Rightarrow> Disabled),
          tc_json = (case parse_bool json of Some b \<Rightarrow> b | None \<Rightarrow> False)\<rparr>)"

definition is_enabled :: "open_telemetry \<Rightarrow> bool" where
  "is_enabled c = (case c of Enabled e \<Rightarrow> True | Disabled \<Rightarrow> False)"

datatype level = TRACE | DEBUG | INFO | WARN | ERROR

datatype 'f log_filter = EnvFilter 'f | Targets level "(string \<times> level) list"

text \<open>\<open>env_or_default_filter\<close>; \<open>None\<close> where it panics.\<close>

definition env_or_default_filter :: "(string \<Rightarrow> 'f option) \<Rightarrow> (string \<Rightarrow> env_var) \<Rightarrow> 'f log_filter option" where
  "env_or_default_filter parse env =
     (case env ''RUST_LOG'' of
        Present rust_log \<Rightarrow> map_option EnvFilter (parse rust_log)
      | NotUnicode \<Rightarrow> None
      | NotPresent \<Rightarrow> Some (Targets INFO [(''axum::rejection'', TRACE)]))"

text \<open>
  \<open>setup_tracing\<close>: what it installs, in order. \<open>metrics\<close> and \<open>spans\<close> are the answers of the two
  exporter builders for an endpoint, \<open>set_global\<close> that of the subscriber registry. \<open>None\<close>: panic.
\<close>

datatype event_format = PrettyFormat | CompactFormat | JsonFormat

record fmt_layer =
  fl_format :: event_format
  fl_level :: bool
  fl_file :: bool
  fl_line_number :: bool
  fl_target :: bool
  fl_span_close :: bool

text \<open>\<open>stdout_layer\<close>: \<open>.pretty().compact()\<close> leaves the compact format.\<close>

definition stdout_layer :: "bool \<Rightarrow> fmt_layer" where
  "stdout_layer json_logging =
     (if json_logging
      then \<lparr>fl_format = JsonFormat, fl_level = True, fl_file = True, fl_line_number = True, fl_target = True,
            fl_span_close = True\<rparr>
      else \<lparr>fl_format = CompactFormat, fl_level = True, fl_file = True, fl_line_number = True, fl_target = True,
            fl_span_close = True\<rparr>)"

datatype 'f tracing_action =
    SetPropagator
  | SetMeterProvider string nat
  | SetTracerProvider string string
  | SetSubscriber fmt_layer bool "'f log_filter"

text \<open>
  \<open>open_telemetry_layer\<close> installs a tracer provider over its exporter (for \<open>setup_tracing\<close> the one of
  an endpoint) under a service name, and returns the layer.
\<close>

definition open_telemetry_layer :: "string \<Rightarrow> string \<Rightarrow> 'f tracing_action" where
  "open_telemetry_layer exporter service_name = SetTracerProvider service_name exporter"

definition setup_tracing ::
  "(string \<Rightarrow> (unit, string) result) \<Rightarrow> (string \<Rightarrow> (unit, string) result) \<Rightarrow> (unit, string) result
     \<Rightarrow> (string \<Rightarrow> 'f option) \<Rightarrow> (string \<Rightarrow> env_var) \<Rightarrow> tracing_config
     \<Rightarrow> ((unit, string) result \<times> 'f tracing_action list) option" where
  "setup_tracing metrics spans set_global parse env cfg =
     (let (exported, acts) =
            (case tc_otel cfg of
               Disabled \<Rightarrow> (Ok (), [])
             | Enabled endpoint \<Rightarrow>
                 (case metrics endpoint of
                    Err e \<Rightarrow> (Err e, [SetPropagator])
                  | Ok _ \<Rightarrow> (Ok (), [SetPropagator, SetMeterProvider endpoint 5])))
      in case exported of
           Err e \<Rightarrow> Some (Err e, acts)
         | Ok _ \<Rightarrow>
             let layer = (case tc_otel cfg of
                            Disabled \<Rightarrow> None
                          | Enabled endpoint \<Rightarrow>
                              if is_ok (spans endpoint)
                              then Some (open_telemetry_layer endpoint ''miden-note-transport-node'') else None);
                 acts = acts @ (case layer of Some a \<Rightarrow> [a] | None \<Rightarrow> [])
             in (case env_or_default_filter parse env of
                   None \<Rightarrow> None
                 | Some flt \<Rightarrow>
                     (case set_global of
                        Err e \<Rightarrow> Some (Err e, acts)
                      | Ok _ \<Rightarrow> Some (Ok (), acts @ [SetSubscriber (stdout_layer (tc_json cfg)) (layer \<noteq> None) flt]))))"

text \<open>
  \<open>setup_test_tracing\<close>: \<open>exporter\<close> names the test exporter; the filters are made before the subscriber is
  set, so a bad \<open>RUST_LOG\<close> panics here too.
\<close>

definition setup_test_tracing ::
  "string \<Rightarrow> (unit, string) result \<Rightarrow> (string \<Rightarrow> 'f option) \<Rightarrow> (string \<Rightarrow> env_var)
     \<Rightarrow> ((unit, string) result \<times> 'f tracing_action list) option" where
  "setup_test_tracing exporter set_global parse env =
     (let acts = [open_telemetry_layer exporter ''test-service''] in
      case env_or_default_filter parse env of
        None \<Rightarrow> None
      | Some flt \<Rightarrow>
          (case set_global of
             Err e \<Rightarrow> Some (Err e, acts)
           | Ok _ \<Rightarrow> Some (Ok (), acts @ [SetSubscriber (stdout_layer True) True flt])))"

section \<open>Instruments\<close>

datatype instrument_kind = U64Counter | U64Histogram | F64Histogram

record instrument =
  in_kind :: instrument_kind
  in_name :: string
  in_description :: string
  in_unit :: "string option"

fun counter_instrument :: "counter_name \<Rightarrow> instrument" where
  "counter_instrument GrpcSendNoteCount =
     \<lparr>in_kind = U64Counter, in_name = ''grpc_send_note_count'',
      in_description = ''Total number of gRPC send_note() requests'', in_unit = None\<rparr>"
| "counter_instrument GrpcFetchNotesCount =
     \<lparr>in_kind = U64Counter, in_name = ''grpc_fetch_notes_count'',
      in_description = ''Total number of gRPC fetch_notes() requests'', in_unit = None\<rparr>"
| "counter_instrument DbStoreNoteCount =
     \<lparr>in_kind = U64Counter, in_name = ''db_store_note_count'',
      in_description = ''Total number of DB store_note() requests'', in_unit = None\<rparr>"
| "counter_instrument DbFetchNotesCount =
     \<lparr>in_kind = U64Counter, in_name = ''db_fetch_notes_count'',
      in_description = ''Total number of DB fetch_notes() requests'', in_unit = None\<rparr>"
| "counter_instrument DbFetchNotesLegacyCursorResetCount =
     \<lparr>in_kind = U64Counter, in_name = ''db_fetch_notes_legacy_cursor_reset_count'',
      in_description = ''Number of fetch_notes() requests where the client's cursor was above the legacy-cursor threshold and reset to 0 (pre-seq-migration clients)'',
      in_unit = None\<rparr>"
| "counter_instrument DbMaintenanceCleanupNotesCount =
     \<lparr>in_kind = U64Counter, in_name = ''db_maintenance_cleanup_notes_count'',
      in_description = ''Total number of DB maintenance cleanup_old_notes() requests'', in_unit = None\<rparr>"

fun histogram_instrument :: "histogram_name \<Rightarrow> instrument" where
  "histogram_instrument GrpcSendNoteDuration =
     \<lparr>in_kind = F64Histogram, in_name = ''grpc_send_note_duration'',
      in_description = ''Duration of gRPC send_note() requests in seconds'', in_unit = Some ''s''\<rparr>"
| "histogram_instrument GrpcSendNoteNoteSize =
     \<lparr>in_kind = U64Histogram, in_name = ''grpc_send_note_note_size'',
      in_description = ''Size of incoming note in send_note() requests in bytes'', in_unit = Some ''B''\<rparr>"
| "histogram_instrument GrpcFetchNotesDuration =
     \<lparr>in_kind = F64Histogram, in_name = ''grpc_fetch_notes_duration'',
      in_description = ''Duration of gRPC fetch_notes() requests in seconds'', in_unit = Some ''s''\<rparr>"
| "histogram_instrument GrpcFetchNotesRepliedNotesNumber =
     \<lparr>in_kind = U64Histogram, in_name = ''grpc_fetch_notes_replied_notes_number'',
      in_description = ''Number of replied notes per gRPC fetch_notes() request'', in_unit = None\<rparr>"
| "histogram_instrument GrpcFetchNotesRepliedNotesSize =
     \<lparr>in_kind = U64Histogram, in_name = ''grpc_fetch_notes_replied_notes_size'',
      in_description = ''Total size of replied notes per gRPC fetch_notes() request in bytes'', in_unit = Some ''B''\<rparr>"
| "histogram_instrument DbStoreNoteDuration =
     \<lparr>in_kind = F64Histogram, in_name = ''db_store_note_duration'',
      in_description = ''Duration of DB store_note() requests in seconds'', in_unit = Some ''s''\<rparr>"
| "histogram_instrument DbFetchNotesDuration =
     \<lparr>in_kind = F64Histogram, in_name = ''db_fetch_notes_duration'',
      in_description = ''Duration of dB fetch_notes() requests in seconds'', in_unit = Some ''s''\<rparr>"
| "histogram_instrument DbMaintenanceCleanupNotesDuration =
     \<lparr>in_kind = F64Histogram, in_name = ''db_maintenance_cleanup_notes_duration'',
      in_description = ''Duration of DB maintenance cleanup_old_notes() requests in seconds'', in_unit = Some ''s''\<rparr>"

text \<open>\<open>MetricsGrpc::new\<close> and \<open>MetricsDatabase::new\<close>: what they register, in their order.\<close>

definition metrics_grpc_new :: "instrument list" where
  "metrics_grpc_new =
     [counter_instrument GrpcSendNoteCount, histogram_instrument GrpcSendNoteDuration,
      histogram_instrument GrpcSendNoteNoteSize, counter_instrument GrpcFetchNotesCount,
      histogram_instrument GrpcFetchNotesDuration, histogram_instrument GrpcFetchNotesRepliedNotesNumber,
      histogram_instrument GrpcFetchNotesRepliedNotesSize]"

definition metrics_database_new :: "instrument list" where
  "metrics_database_new =
     [counter_instrument DbStoreNoteCount, histogram_instrument DbStoreNoteDuration,
      counter_instrument DbFetchNotesCount, histogram_instrument DbFetchNotesDuration,
      counter_instrument DbFetchNotesLegacyCursorResetCount,
      counter_instrument DbMaintenanceCleanupNotesCount, histogram_instrument DbMaintenanceCleanupNotesDuration]"

text \<open>\<open>Metrics\<close>: the two groups, each registered with the meter of a name.\<close>

record metrics =
  mt_grpc :: "string \<times> instrument list"
  mt_db :: "string \<times> instrument list"

definition metrics_new :: "string \<Rightarrow> metrics" where
  "metrics_new meter = \<lparr>mt_grpc = (meter, metrics_grpc_new), mt_db = (meter, metrics_database_new)\<rparr>"

definition metrics_default :: metrics where
  "metrics_default = metrics_new ''miden-note-transport-node''"

section \<open>The generated service\<close>

text \<open>
  The settings a generated server hands to its codec; \<open>'e\<close> are the compression encodings of tonic.
  The documented default of the decoding limit is 4 MB.
\<close>

record 'e codec_settings =
  cs_accept_compression :: "'e set"
  cs_send_compression :: "'e set"
  cs_max_decoding :: "nat option"
  cs_max_encoding :: "nat option"

definition codec_settings_default :: "'e codec_settings" where
  "codec_settings_default =
     \<lparr>cs_accept_compression = {}, cs_send_compression = {}, cs_max_decoding = None, cs_max_encoding = None\<rparr>"

definition DEFAULT_MAX_DECODING :: nat where
  "DEFAULT_MAX_DECODING = 4 * 1024 * 1024"

definition decoding_limit :: "'e codec_settings \<Rightarrow> nat" where
  "decoding_limit cs = (case cs_max_decoding cs of Some n \<Rightarrow> n | None \<Rightarrow> DEFAULT_MAX_DECODING)"

text \<open>
  The dispatch of \<open>call\<close>: each known path runs its method, unary or server-streaming, under the server's
  settings; any other is answered \<open>Unimplemented\<close> without reading a body.
\<close>

datatype 'e service_call =
    Unary grpc_method "'e codec_settings"
  | ServerStreaming grpc_method "'e codec_settings"
  | UnimplementedResponse

definition service_call :: "'e codec_settings \<Rightarrow> string \<Rightarrow> 'e service_call" where
  "service_call cs path =
     (case server_route path of
        Some MSendNote \<Rightarrow> Unary MSendNote cs
      | Some MFetchNotes \<Rightarrow> Unary MFetchNotes cs
      | Some MStreamNotes \<Rightarrow> ServerStreaming MStreamNotes cs
      | Some MStats \<Rightarrow> Unary MStats cs
      | None \<Rightarrow> UnimplementedResponse)"

text \<open>
  The calls of the generated client: when the transport is ready, the method's path is sent, with
  \<open>stream_notes\<close> as the only streaming one.
\<close>

definition client_call :: "(unit, string) result \<Rightarrow> grpc_method \<Rightarrow> (bool \<times> string, status) result" where
  "client_call ready m =
     (case ready of
        Err e \<Rightarrow> Err (unknown (''Service was not ready: '' @ e))
      | Ok _ \<Rightarrow> Ok (m = MStreamNotes, client_path m))"

end
