(* ===== verification/StreamFlow.thy ===== *)
theory StreamFlow
  imports StreamDelivery Service
begin

text \<open>
  The streaming task together with its subscribers: the bounded channels as queues, the handler
  that subscribes, the polls of the HTTP stack on each stream, and the streamer's steps, in any
  interleaving. What flows through a subscription's channel, and when a channel can be full.
\<close>

section \<open>The system\<close>

text \<open>
  Channels are queues of the capacities the code gives them; \<open>None\<close> is a subscription channel whose
  receiver is gone, which refuses every page. A subscription's channel is known by its (random,
  hence unrepeated) id; \<open>sy_ids\<close> is the ids handed out so far, with their tags. \<open>sy_armed\<close> says
  that the \<open>select!\<close> under way has found the control channel empty, and so has begun the sleep of
  its query. The last three fields are the history: what each stream has handed to the HTTP stack,
  the pages of its tag that a round read while it had no waker stored, and the cursor of its tag
  when the manager took it in.
\<close>

definition sub_chan :: "sub_id \<Rightarrow> chan" where
  "sub_chan i = unat i"

type_synonym chans = "chan \<Rightarrow> transport_notes_pg list option"

definition chan_send :: "chan \<Rightarrow> transport_notes_pg \<Rightarrow> chans \<Rightarrow> bool \<times> chans" where
  "chan_send ch pg chans =
     (case chans ch of
        None \<Rightarrow> (False, chans)
      | Some q \<Rightarrow> (let (sent, q) = bounded_send SUB_CAPACITY pg q in (sent, chans(ch := Some q))))"

record stream_sys =
  sy_streamer :: "chans streamer_state"
  sy_ctl :: "streamer_message list"
  sy_ids :: "sub_id \<Rightarrow> u32 option"
  sy_armed :: bool
  sy_got :: "sub_id \<Rightarrow> stream_notes_update list"
  sy_missed :: "sub_id \<Rightarrow> transport_notes_pg list"
  sy_from :: "sub_id \<Rightarrow> u64"

definition sys_init :: "telemetry \<Rightarrow> stream_sys" where
  "sys_init tel = \<lparr>sy_streamer = \<lparr>ss_manager = manager_new, ss_chans = (\<lambda>_. None), ss_woken = [], ss_log = [], ss_tel = tel\<rparr>,
                   sy_ctl = [], sy_ids = Map.empty, sy_armed = False, sy_got = (\<lambda>_. []), sy_missed = (\<lambda>_. []), sy_from = (\<lambda>_. 0)\<rparr>"

text \<open>\<open>poll_recv\<close> on a queue, and what is left of the queue.\<close>

fun poll_recv :: "transport_notes_pg list \<Rightarrow> transport_notes_pg option poll \<times> transport_notes_pg list" where
  "poll_recv [] = (Pending, [])"
| "poll_recv (pg # q) = (Ready (Some pg), q)"

definition deliver ::
  "sub_id \<Rightarrow> (stream_notes_update, status) result option poll \<Rightarrow> stream_sys \<Rightarrow> stream_sys" where
  "deliver i r s =
     (case r of
        Ready (Some (Ok u)) \<Rightarrow> s\<lparr>sy_got := (sy_got s)(i := sy_got s i @ [u])\<rparr>
      | _ \<Rightarrow> s)"

definition set_chan :: "sub_id \<Rightarrow> transport_notes_pg list option \<Rightarrow> stream_sys \<Rightarrow> stream_sys" where
  "set_chan i q s = s\<lparr>sy_streamer := (sy_streamer s)\<lparr>ss_chans := (ss_chans (sy_streamer s))(sub_chan i := q)\<rparr>\<rparr>"

definition round_missed :: "('h, 't) extern \<Rightarrow> 'c streamer_env \<Rightarrow> 'c streamer_state \<Rightarrow> sub_id \<Rightarrow> transport_notes_pg list" where
  "round_missed x e s i =
     (case fst (query_updates x (env_faults e) (env_dbs e) (ss_manager s) (ss_tel s)) of
        Err _ \<Rightarrow> []
      | Ok upd \<Rightarrow> if bt_get (mg_wakers (ss_manager s)) i = None
                  then map snd (filter (\<lambda>u. subs_abs (ss_manager s) (fst u, i) \<noteq> None) upd) else [])"

fun from_cursor :: "streamer_message \<Rightarrow> manager \<Rightarrow> (sub_id \<Rightarrow> u64) \<Rightarrow> (sub_id \<Rightarrow> u64)" where
  "from_cursor (AddSub sub) m from =
     from(sf_id sub := (case tag_cursor m (sf_tag sub) of Some c \<Rightarrow> c | None \<Rightarrow> 0))"
| "from_cursor _ m from = from"

text \<open>
  The steps. A \<open>select!\<close> first looks at the control channel: only when it is empty does the sleep
  of the query begin (\<open>arm\<close>). From then on either the query completes, whatever messages have
  arrived since, or a message is taken and the query dropped; both end this \<open>select!\<close>. A live
  stream is polled at any time and any number of times, with any waker; a dropped one loses its
  receiver, as does one the handler could not announce. \<open>P\<close> says which tables the queries of a
  round may meet.
\<close>

inductive flow_step :: "('h, 't) extern \<Rightarrow> ((u32 \<Rightarrow> notes_table) \<Rightarrow> bool) \<Rightarrow> stream_sys \<Rightarrow> stream_sys \<Rightarrow> bool"
  for x P where
  subscribe: "sy_ids s i = None \<Longrightarrow>
     stream_notes req i (sub_chan i) (bounded_send CONTROL_CAPACITY) why (sy_ctl s) = (r, ctl) \<Longrightarrow>
     flow_step x P s (set_chan i (if is_ok r then Some [] else None)
       (s\<lparr>sy_ctl := ctl, sy_ids := (sy_ids s)(i \<mapsto> str_tag req)\<rparr>))"
| poll: "sy_ids s i = Some t \<Longrightarrow> ss_chans (sy_streamer s) (sub_chan i) = Some q \<Longrightarrow>
     poll_recv q = (recv, q') \<Longrightarrow>
     sub_poll_next \<lparr>sub_sid = i, sub_tag = t\<rparr> recv (bounded_send CONTROL_CAPACITY) w (sy_ctl s) = (r, ctl) \<Longrightarrow>
     flow_step x P s (deliver i r (set_chan i (Some q') (s\<lparr>sy_ctl := ctl\<rparr>)))"
| drop: "sy_ids s i = Some t \<Longrightarrow> ss_chans (sy_streamer s) (sub_chan i) \<noteq> None \<Longrightarrow>
     flow_step x P s (set_chan i None
       (s\<lparr>sy_ctl := sub_drop \<lparr>sub_sid = i, sub_tag = t\<rparr> (bounded_send CONTROL_CAPACITY) (sy_ctl s)\<rparr>))"
| arm: "sy_ctl s = [] \<Longrightarrow> \<not> sy_armed s \<Longrightarrow> flow_step x P s (s\<lparr>sy_armed := True\<rparr>)"
| control: "sy_ctl s = msg # ctl \<Longrightarrow> streamer_step x e (Received msg) (sy_streamer s) = (r, st) \<Longrightarrow>
     flow_step x P s (s\<lparr>sy_streamer := st, sy_ctl := ctl, sy_armed := False,
       sy_from := from_cursor msg (ss_manager st) (sy_from s)\<rparr>)"
| round: "sy_armed s \<Longrightarrow> P (env_dbs e) \<Longrightarrow> env_tx e = chan_send \<Longrightarrow> streamer_step x e QueryReady (sy_streamer s) = (r, st) \<Longrightarrow>
     flow_step x P s (s\<lparr>sy_streamer := st, sy_armed := False,
       sy_missed := (\<lambda>i. sy_missed s i @ round_missed x e (sy_streamer s) i)\<rparr>)"

inductive_cases flow_stepE: "flow_step x P s s'"

lemma flow_step_mono:
  assumes "flow_step x P s s'" and "\<And>dbs. sy_armed s \<Longrightarrow> P dbs \<Longrightarrow> Q dbs"
  shows "flow_step x Q s s'"
  using assms(1)
proof cases
  case (subscribe i req why r ctl)
  show ?thesis
    unfolding subscribe(1) by (rule flow_step.subscribe [OF subscribe(2,3)])
next
  case (poll i t q recv q' w r ctl)
  show ?thesis
    unfolding poll(1) by (rule flow_step.poll [OF poll(2-5)])
next
  case (round e r st)
  show ?thesis
    unfolding round(1) by (rule flow_step.round [where P = Q, OF round(2) assms(2) [OF round(2,3)] round(4,5)])
qed (auto intro: flow_step.intros)

section \<open>The invariant\<close>

text \<open>
  The messages under way are the ones the handlers and the streams send; subscriptions have their
  own channel; a live subscription is known to the manager or announced to it, and nobody has
  asked for its removal; a live channel holds at most two pages, one when its waker is stored or
  under way, and none when the waker is under way and the query has begun; and an eviction is
  logged only for a subscription whose receiver is gone.
\<close>

fun msg_ok :: "(sub_id \<Rightarrow> u32 option) \<Rightarrow> streamer_message \<Rightarrow> bool" where
  "msg_ok ids (AddSub s) \<longleftrightarrow> sf_tx s = sub_chan (sf_id s) \<and> ids (sf_id s) = Some (sf_tag s)"
| "msg_ok ids (RemoveSub i t why) \<longleftrightarrow> why = ''client_disconnect'' \<and> ids i \<noteq> None"
| "msg_ok ids (WakerMsg i w) \<longleftrightarrow> True"
| "msg_ok ids Shutdown \<longleftrightarrow> False"

definition chan_room :: "(sub_id, waker) btree \<Rightarrow> sub_id set \<Rightarrow> bool \<Rightarrow> sub_id \<Rightarrow> nat" where
  "chan_room wakers announced armed i =
     (if i \<in> announced then (if armed then 0 else 1) else if bt_get wakers i = None then 2 else 1)"

definition chans_ok :: "(sub_id, waker) btree \<Rightarrow> sub_id set \<Rightarrow> bool \<Rightarrow> chans \<Rightarrow> bool" where
  "chans_ok wakers announced armed chans \<longleftrightarrow>
     (\<forall>i q. chans (sub_chan i) = Some q \<longrightarrow> length q \<le> chan_room wakers announced armed i)"

definition announced :: "streamer_message list \<Rightarrow> sub_id set" where
  "announced ctl = {i. \<exists>w. WakerMsg i w \<in> set ctl}"

text \<open>The subscriptions a log says were removed for backpressure.\<close>

definition evicted :: "sub_log list \<Rightarrow> sub_id set" where
  "evicted l = {i. \<exists>n d. SubscriptionRemoved i n d ''backpressure'' \<in> set l}"

definition subs_ok :: "(sub_id \<Rightarrow> u32 option) \<Rightarrow> manager \<Rightarrow> bool" where
  "subs_ok ids m \<longleftrightarrow> (\<forall>p e. subs_abs m p = Some e \<longrightarrow> se_tx e = sub_chan (snd p) \<and> ids (snd p) = Some (fst p))"

definition live_ok :: "(sub_id \<Rightarrow> u32 option) \<Rightarrow> streamer_message list \<Rightarrow> (u32 \<times> sub_id \<Rightarrow> sub_entry option) \<Rightarrow> chans \<Rightarrow> bool" where
  "live_ok ids ctl subs chans \<longleftrightarrow>
     (\<forall>i. chans (sub_chan i) \<noteq> None \<longrightarrow>
        (\<exists>t. ids i = Some t \<and> (AddSub \<lparr>sf_id = i, sf_tag = t, sf_tx = sub_chan i\<rparr> \<in> set ctl \<or> subs (t, i) \<noteq> None))
        \<and> (\<forall>t why. RemoveSub i t why \<notin> set ctl))"

definition flow_ok :: "stream_sys \<Rightarrow> bool" where
  "flow_ok s \<longleftrightarrow>
     mg_ok (ss_manager (sy_streamer s))
     \<and> (\<forall>m \<in> set (sy_ctl s). msg_ok (sy_ids s) m)
     \<and> subs_ok (sy_ids s) (ss_manager (sy_streamer s))
     \<and> chans_ok (mg_wakers (ss_manager (sy_streamer s))) (announced (sy_ctl s)) (sy_armed s) (ss_chans (sy_streamer s))
     \<and> live_ok (sy_ids s) (sy_ctl s) (subs_abs (ss_manager (sy_streamer s))) (ss_chans (sy_streamer s))
     \<and> (\<forall>i \<in> evicted (ss_log (sy_streamer s)). sy_ids s i \<noteq> None \<and> ss_chans (sy_streamer s) (sub_chan i) = None)"

lemma sub_chan_inj [simp]: "sub_chan i = sub_chan j \<longleftrightarrow> i = j"
  by (simp add: sub_chan_def word_unat_eq_iff)

lemma flow_ok_init: "flow_ok (sys_init tel)"
  by (simp add: flow_ok_def sys_init_def mg_ok_new chans_ok_def live_ok_def evicted_def)
    (simp add: subs_ok_def subs_abs_def manager_new_def)

lemma announced_simps [simp]:
  "announced [] = {}"
  "announced (ctl @ ctl') = announced ctl \<union> announced ctl'"
  "announced (WakerMsg i w # ctl) = insert i (announced ctl)"
  "announced (AddSub s # ctl) = announced ctl"
  "announced (RemoveSub i t why # ctl) = announced ctl"
  "announced (Shutdown # ctl) = announced ctl"
  by (auto simp: announced_def)

lemma evicted_simps [simp]:
  "evicted [] = {}" "evicted (l @ l') = evicted l \<union> evicted l'"
  "evicted [SubscriptionAdded i n] = {}"
  by (auto simp: evicted_def)

lemma evicted_remove_sub: "i' \<in> evicted (snd (remove_sub now i t why m)) \<Longrightarrow> why = ''backpressure'' \<and> i' = i"
  by (auto simp: remove_sub_def evicted_def Let_def split: option.splits)

lemma evicted_remove_subs: "evicted (snd (remove_subs now rs m)) \<subseteq> fst ` set rs"
proof (induction now rs m rule: remove_subs.induct)
  case (1 now m)
  then show ?case by simp
next
  case (2 now i t rs m)
  obtain m1 l1 where m1: "remove_sub now i t ''backpressure'' m = (m1, l1)"
    by fastforce
  have "evicted l1 \<subseteq> {i}"
    using evicted_remove_sub [of _ now i t "''backpressure''" m] m1 by auto
  then show ?case
    using 2 [OF refl m1 [symmetric]] m1 by (auto simp: case_prod_beta)
qed

lemma remove_subs_abs_SomeD: "subs_abs (fst (remove_subs now rs m)) p = Some e \<Longrightarrow> subs_abs m p = Some e"
  by (simp add: subs_abs_remove_subs split: if_splits)

section \<open>Forwarding on such channels\<close>

text \<open>Every live channel takes what it is offered; only channels without receiver are reported.\<close>

definition forward_room :: "sub_id set \<Rightarrow> (sub_id, waker) btree \<Rightarrow> sub_id \<Rightarrow> nat" where
  "forward_room ann wakers i = (if i \<in> ann then 0 else 1) + (if bt_get wakers i = None then 1 else 0)"

definition forward_ok :: "sub_id set \<Rightarrow> (sub_id \<Rightarrow> u32 option) \<Rightarrow> chans \<Rightarrow> chans forward_state \<Rightarrow> bool" where
  "forward_ok ann ids chans s \<longleftrightarrow>
     (\<forall>i q. fw_chans s (sub_chan i) = Some q \<longrightarrow> length q \<le> forward_room ann (fw_wakers s) i)
     \<and> (\<forall>ch. fw_chans s ch = None \<longleftrightarrow> chans ch = None)
     \<and> (\<forall>i \<in> fst ` set (fw_remove s). ids i \<noteq> None \<and> chans (sub_chan i) = None)"

lemma forward_room_start: "chan_room wakers ann True i \<le> forward_room ann wakers i"
  by (simp add: chan_room_def forward_room_def)

lemma forward_room_end: "forward_room ann wakers i \<le> chan_room wakers ann False i"
  by (simp add: chan_room_def forward_room_def)

lemma forward_room_remove: "forward_room ann w i \<le> forward_room ann (bt_remove j w) i"
  by (simp add: forward_room_def bt_get_remove)

lemma forward_room_removed: "bt_get w i = Some v \<Longrightarrow> Suc (forward_room ann w i) = forward_room ann (bt_remove i w) i"
  by (simp add: forward_room_def bt_get_remove)

lemma forward_ok_sub:
  assumes "forward_ok ann ids chans s" and "se_tx (snd sub) = sub_chan (fst sub)" and "ids (fst sub) = Some t"
  shows "forward_ok ann ids chans (forward_sub chan_send t pg sub s)"
proof (cases "bt_get (fw_wakers s) (fst sub)")
  case None
  then show ?thesis
    using assms(1) by (simp add: forward_sub_def)
next
  case (Some w)
  show ?thesis
  proof (cases "fw_chans s (sub_chan (fst sub))")
    case None
    then have "forward_sub chan_send t pg sub s =
        s\<lparr>fw_wakers := bt_remove (fst sub) (fw_wakers s), fw_remove := fw_remove s @ [(fst sub, t)]\<rparr>"
      using Some assms(2) by (simp add: forward_sub_def chan_send_def)
    moreover have "chans (sub_chan (fst sub)) = None"
      using assms(1) None by (simp add: forward_ok_def)
    ultimately show ?thesis
      using assms(1,3) order_trans [OF _ forward_room_remove] by (auto simp: forward_ok_def)
  next
    case (Some q)
    have l: "length q \<le> forward_room ann (fw_wakers s) (fst sub)"
      using assms(1) Some unfolding forward_ok_def by blast
    then have q: "length q \<le> 1"
      using \<open>bt_get (fw_wakers s) (fst sub) = Some w\<close> by (simp add: forward_room_def split: if_splits)
    have "length (q @ [pg]) \<le> forward_room ann (bt_remove (fst sub) (fw_wakers s)) (fst sub)"
      using l forward_room_removed [OF \<open>bt_get (fw_wakers s) (fst sub) = Some w\<close>, of ann] by simp
    moreover have "chans (sub_chan (fst sub)) \<noteq> None"
      using assms(1) Some unfolding forward_ok_def by (metis option.distinct(1))
    moreover have "forward_sub chan_send t pg sub s =
        s\<lparr>fw_wakers := bt_remove (fst sub) (fw_wakers s), fw_chans := (fw_chans s)(sub_chan (fst sub) \<mapsto> q @ [pg]),
          fw_woken := fw_woken s @ [w]\<rparr>"
      using q Some \<open>bt_get (fw_wakers s) (fst sub) = Some w\<close> assms(2)
      by (simp add: forward_sub_def chan_send_def bounded_send_def SUB_CAPACITY_def split: if_splits)
    ultimately show ?thesis
      using assms(1) order_trans [OF _ forward_room_remove] by (auto simp: forward_ok_def)
  qed
qed

lemma forward_ok_tags:
  assumes "forward_ok ann ids chans s" and "mg_ok m" and "subs_ok ids m"
  shows "forward_ok ann ids chans (fold (forward_tag chan_send (mg_tags m)) upd s)"
  using assms(1)
proof (induction upd arbitrary: s)
  case Nil
  then show ?case by simp
next
  case (Cons u upd)
  obtain t pg where u: "u = (t, pg)" by (cases u) blast
  have "forward_ok ann ids chans (fold (forward_sub chan_send t pg) subs s)"
    if "forward_ok ann ids chans s" "set subs \<subseteq> set (tag_subs m t)" for subs s
    using that
  proof (induction subs arbitrary: s)
    case Nil
    then show ?case by simp
  next
    case (Cons sub subs)
    have "subs_abs m (t, fst sub) = Some (snd sub)"
      using Cons.prems(2) in_tag_subs [OF assms(2), of "fst sub" "snd sub" t] by auto
    then have "se_tx (snd sub) = sub_chan (fst sub)" "ids (fst sub) = Some t"
      using assms(3) unfolding subs_ok_def by fastforce+
    then have "forward_ok ann ids chans (forward_sub chan_send t pg sub s)"
      by (rule forward_ok_sub [OF Cons.prems(1)])
    then show ?case
      using Cons.IH Cons.prems(2) by simp
  qed
  then have "forward_ok ann ids chans (forward_tag chan_send (mg_tags m) u s)"
    using Cons.prems by (simp add: u forward_tag_fold)
  then show ?case
    by (simp add: Cons.IH)
qed

lemma forward_updates_flow:
  assumes "mg_ok m" and "subs_ok ids m" and "chans_ok (mg_wakers m) ann True chans"
    and "forward_updates chan_send now upd m chans = (m', chans', woken, l)"
  shows "chans_ok (mg_wakers m') ann False chans'" "chans' ch = None \<longleftrightarrow> chans ch = None"
    "i \<in> evicted l \<Longrightarrow> ids i \<noteq> None \<and> chans (sub_chan i) = None" "subs_ok ids m'"
    "chans (sub_chan i) \<noteq> None \<Longrightarrow> subs_abs m' (t, i) = subs_abs m (t, i)"
proof -
  define S where "S = fold (forward_tag chan_send (mg_tags m)) upd
      \<lparr>fw_wakers = mg_wakers m, fw_chans = chans, fw_woken = [], fw_remove = []\<rparr>"
  have "forward_ok ann ids chans
      \<lparr>fw_wakers = mg_wakers m, fw_chans = chans, fw_woken = [], fw_remove = []\<rparr>"
    using assms(3) order_trans [OF _ forward_room_start] by (auto simp: forward_ok_def chans_ok_def)
  then have "forward_ok ann ids chans S"
    unfolding S_def by (rule forward_ok_tags [OF _ assms(1,2)])
  note f = this [unfolded forward_ok_def]
  note ok = conjunct1 [OF f] spec [OF conjunct1 [OF conjunct2 [OF f]]] conjunct2 [OF conjunct2 [OF f]]
  have r: "m' = fst (remove_subs now (fw_remove S) (m\<lparr>mg_wakers := fw_wakers S\<rparr>))" "chans' = fw_chans S"
      "l = snd (remove_subs now (fw_remove S) (m\<lparr>mg_wakers := fw_wakers S\<rparr>))"
    using assms(4) unfolding S_def by (simp_all add: forward_updates_def Let_def case_prod_beta prod_eq_iff)
  show "chans_ok (mg_wakers m') ann False chans'"
    using ok(1) order_trans [OF _ forward_room_end] unfolding r(1,2) remove_subs_wakers chans_ok_def by fastforce
  show "chans' ch = None \<longleftrightarrow> chans ch = None"
    unfolding r(2) by (rule ok(2))
  show "i \<in> evicted l \<Longrightarrow> ids i \<noteq> None \<and> chans (sub_chan i) = None"
    unfolding r(3) by (rule bspec [OF ok(3)]) (rule subsetD [OF evicted_remove_subs])
  show "subs_ok ids m'"
    unfolding subs_ok_def
  proof (intro allI impI)
    fix p e
    assume "subs_abs m' p = Some e"
    from remove_subs_abs_SomeD [OF this [unfolded r(1)]] have "subs_abs m p = Some e"
      by (simp only: subs_abs_wakers_upd)
    then show "se_tx e = sub_chan (snd p) \<and> ids (snd p) = Some (fst p)"
      using assms(2) unfolding subs_ok_def by blast
  qed
  show "chans (sub_chan i) \<noteq> None \<Longrightarrow> subs_abs m' (t, i) = subs_abs m (t, i)"
    unfolding r(1) subs_abs_remove_subs using ok(3) by force
qed

section \<open>Preservation\<close>

lemma chans_ok_mono:
  assumes "chans_ok w a b chans" and "\<And>i. chan_room w a b i \<le> chan_room w' a' b' i"
  shows "chans_ok w' a' b' chans"
  using assms order_trans unfolding chans_ok_def by blast

lemma live_ok_step:
  assumes "live_ok ids (msg # ctl) subs chans"
  shows "live_ok ids ctl (subs_spec now msg subs) chans"
  unfolding live_ok_def
proof (intro allI impI)
  fix i
  let ?add = "\<lambda>t. AddSub \<lparr>sf_id = i, sf_tag = t, sf_tx = sub_chan i\<rparr>"
  assume c: "chans (sub_chan i) \<noteq> None"
  obtain t where t: "ids i = Some t" "?add t \<in> set (msg # ctl) \<or> subs (t, i) \<noteq> None"
    using assms c unfolding live_ok_def by blast
  have n: "RemoveSub i u why \<notin> set (msg # ctl)" for u why
    using assms c unfolding live_ok_def by blast
  have "?add t \<in> set ctl \<or> subs_spec now msg subs (t, i) \<noteq> None"
    using t(2) n by (cases msg) auto
  then show "(\<exists>t. ids i = Some t \<and> (?add t \<in> set ctl \<or> subs_spec now msg subs (t, i) \<noteq> None))
      \<and> (\<forall>t why. RemoveSub i t why \<notin> set ctl)"
    using t(1) n by auto
qed

lemma flow_ok_control:
  assumes "flow_ok s" and "sy_ctl s = msg # ctl" and "streamer_step x e (Received msg) (sy_streamer s) = (r, st)"
  shows "flow_ok (s\<lparr>sy_streamer := st, sy_ctl := ctl, sy_armed := False, sy_from := from\<rparr>)"
proof -
  let ?m = "ss_manager (sy_streamer s)"
  have ok: "mg_ok (ss_manager st)"
    using streamer_step_ok [of "sy_streamer s" x e "Received msg"] assms(1,3) by (simp add: flow_ok_def)
  have a: "subs_abs (ss_manager st) = subs_spec (env_now e) msg (subs_abs ?m)"
    using streamer_step_subs [of x e msg "sy_streamer s"] assms(3) by simp
  have c: "chans_ok (mg_wakers ?m) (announced (msg # ctl)) (sy_armed s) (ss_chans (sy_streamer s))"
    and lv: "live_ok (sy_ids s) (msg # ctl) (subs_abs ?m) (ss_chans (sy_streamer s))"
    and mo: "msg_ok (sy_ids s) msg" "\<forall>m \<in> set ctl. msg_ok (sy_ids s) m"
    and tx: "subs_ok (sy_ids s) ?m"
    using assms(1,2) by (simp_all add: flow_ok_def)
  have tx': "subs_ok (sy_ids s) (ss_manager st)"
    using tx mo(1) unfolding subs_ok_def a by (cases msg) auto
  have ch: "ss_chans st = ss_chans (sy_streamer s)"
    using assms(3) by (cases msg) (auto simp: case_prod_beta)
  have lv': "live_ok (sy_ids s) ctl (subs_abs (ss_manager st)) (ss_chans (sy_streamer s))"
    unfolding a by (rule live_ok_step [OF lv])
  have w: "chans_ok (mg_wakers (ss_manager st)) (announced ctl) False (ss_chans (sy_streamer s))"
  proof -
    have "chan_room (mg_wakers ?m) (announced (msg # ctl)) (sy_armed s) i
        \<le> chan_room (mg_wakers (ss_manager st)) (announced ctl) False i" for i
      using assms(3) by (cases msg) (auto simp: chan_room_def update_waker_def bt_get_insert add_sub_def Let_def case_prod_beta)
    then show ?thesis
      by (rule chans_ok_mono [OF c])
  qed
  have "evicted (ss_log st) = evicted (ss_log (sy_streamer s))"
  proof (cases msg)
    case (RemoveSub i t why)
    then have "evicted (snd (remove_sub (env_now e) i t why ?m)) = {}"
      using mo(1) evicted_remove_sub by fastforce
    then show ?thesis
      using RemoveSub assms(3) by (auto simp: case_prod_beta)
  qed (use assms(3) mo(1) in \<open>auto simp: case_prod_beta add_sub_def Let_def\<close>)
  with ok tx' w mo(2) lv' ch assms(1) show ?thesis
    by (simp add: flow_ok_def)
qed

lemma chans_ok_disarm: "chans_ok w a b chans \<Longrightarrow> chans_ok w a False chans"
  by (erule chans_ok_mono) (simp add: chan_room_def)

lemma flow_ok_arm: "flow_ok s \<Longrightarrow> sy_ctl s = [] \<Longrightarrow> flow_ok (s\<lparr>sy_armed := True\<rparr>)"
  by (simp add: flow_ok_def chans_ok_def chan_room_def)

lemma flow_ok_round:
  assumes "flow_ok s" and "sy_armed s" and "env_tx e = chan_send"
    and "streamer_step x e QueryReady (sy_streamer s) = (r, st)"
  shows "flow_ok (s\<lparr>sy_streamer := st, sy_armed := False, sy_missed := missed\<rparr>)"
proof -
  let ?s = "sy_streamer s"
  have ok: "mg_ok (ss_manager ?s)" "mg_ok (ss_manager st)"
    using streamer_step_ok [of ?s x e QueryReady] assms(1,4) by (simp_all add: flow_ok_def)
  obtain q tel where q: "query_updates x (env_faults e) (env_dbs e) (ss_manager ?s) (ss_tel ?s) = (q, tel)"
    by fastforce
  show ?thesis
  proof (cases q)
    case (Err err)
    then show ?thesis
      using assms q chans_ok_disarm by (auto simp: flow_ok_def)
  next
    case (Ok upd)
    let ?m = "update_timestamps upd (ss_manager ?s)"
    obtain m' chans' woken l where f:
        "forward_updates chan_send (env_now e) upd ?m (ss_chans ?s) = (m', chans', woken, l)"
      by (metis prod_cases4)
    have st: "ss_manager st = m'" "ss_chans st = chans'" "ss_log st = ss_log ?s @ l"
      using assms(3,4) q Ok f by (auto simp: Let_def)
    have c: "chans_ok (mg_wakers ?m) (announced (sy_ctl s)) True (ss_chans ?s)"
      using assms(1,2) by (simp add: flow_ok_def)
    have tx: "subs_ok (sy_ids s) ?m"
      using assms(1) by (simp add: flow_ok_def subs_ok_def subs_abs_timestamps)
    note fl = forward_updates_flow [OF update_timestamps_ok [OF ok(1)] tx c f]
    have "live_ok (sy_ids s) (sy_ctl s) (subs_abs m') chans'"
      using assms(1) fl(2,5) unfolding flow_ok_def live_ok_def subs_abs_timestamps by metis
    then show ?thesis
      using assms(1,2) ok(2) fl unfolding flow_ok_def by (auto simp: st)
  qed
qed

lemma live_ok_snoc:
  assumes "live_ok ids ctl subs chans" and "\<And>i t why. msg = RemoveSub i t why \<Longrightarrow> chans (sub_chan i) = None"
  shows "live_ok ids (ctl @ [msg]) subs chans"
  unfolding live_ok_def
proof (intro allI impI)
  fix i
  assume c: "chans (sub_chan i) \<noteq> None"
  have "RemoveSub i t why \<noteq> msg" for t why
    using assms(2) [of i t why] c by auto
  then show "(\<exists>t. ids i = Some t \<and> (AddSub \<lparr>sf_id = i, sf_tag = t, sf_tx = sub_chan i\<rparr> \<in> set (ctl @ [msg]) \<or> subs (t, i) \<noteq> None))
        \<and> (\<forall>t why. RemoveSub i t why \<notin> set (ctl @ [msg]))"
    using assms(1) c unfolding live_ok_def by auto
qed

lemma live_ok_upd: "live_ok ids ctl subs chans \<Longrightarrow> chans (sub_chan i) \<noteq> None \<Longrightarrow> live_ok ids ctl subs (chans(sub_chan i \<mapsto> q))"
  by (simp add: live_ok_def)

lemma flow_ok_send:
  assumes "flow_ok s" and "msg_ok (sy_ids s) msg" and "announced [msg] = {}"
    and "\<And>i t why. msg = RemoveSub i t why \<Longrightarrow> ss_chans (sy_streamer s) (sub_chan i) = None"
  shows "flow_ok (s\<lparr>sy_ctl := snd (bounded_send CONTROL_CAPACITY msg (sy_ctl s))\<rparr>)"
proof -
  have "live_ok (sy_ids s) (sy_ctl s @ [msg]) (subs_abs (ss_manager (sy_streamer s))) (ss_chans (sy_streamer s))"
    by (rule live_ok_snoc) (use assms(1,4) in \<open>simp_all add: flow_ok_def\<close>)
  with assms(1-3) show ?thesis
    by (auto simp: flow_ok_def bounded_send_def)
qed

lemma flow_ok_close: "flow_ok s \<Longrightarrow> flow_ok (set_chan i None s)"
  by (auto simp: flow_ok_def set_chan_def chans_ok_def live_ok_def)

lemma live_okD: "flow_ok s \<Longrightarrow> ss_chans (sy_streamer s) (sub_chan i) \<noteq> None \<Longrightarrow> sy_ids s i \<noteq> None"
  by (auto simp: flow_ok_def live_ok_def)

lemma deliver_simps [simp]:
  "sy_streamer (deliver i r s) = sy_streamer s" "sy_ctl (deliver i r s) = sy_ctl s"
  "sy_ids (deliver i r s) = sy_ids s" "sy_armed (deliver i r s) = sy_armed s"
  by (simp_all add: deliver_def split: poll.split option.split result.split)

lemma flow_ok_deliver: "flow_ok (deliver i r s) \<longleftrightarrow> flow_ok s"
  by (simp add: flow_ok_def)

lemma flow_ok_poll:
  assumes "flow_ok s" and "ss_chans (sy_streamer s) (sub_chan i) = Some q" and "poll_recv q = (recv, q')"
    and "sub_poll_next \<lparr>sub_sid = i, sub_tag = t\<rparr> recv (bounded_send CONTROL_CAPACITY) w (sy_ctl s) = (r, ctl)"
  shows "flow_ok (deliver i r (set_chan i (Some q') (s\<lparr>sy_ctl := ctl\<rparr>)))"
proof -
  let ?w = "mg_wakers (ss_manager (sy_streamer s))"
  have c: "length q \<le> chan_room ?w (announced (sy_ctl s)) (sy_armed s) i"
    and e: "i \<notin> evicted (ss_log (sy_streamer s))"
    using assms(1,2) by (auto simp: flow_ok_def chans_ok_def)
  have "(q = [] \<and> q' = [] \<and> (ctl = sy_ctl s \<or> ctl = sy_ctl s @ [WakerMsg i w])) \<or> (ctl = sy_ctl s \<and> length q' \<le> length q)"
    using assms(3,4) by (cases q) (auto simp: sub_poll_next_def bounded_send_def Let_def split: if_splits)
  then have ctl: "ctl = sy_ctl s \<or> ctl = sy_ctl s @ [WakerMsg i w]"
    and l: "length q' \<le> chan_room ?w (announced ctl) (sy_armed s) i"
    using c by auto
  have o: "chan_room ?w (announced ctl) (sy_armed s) j = chan_room ?w (announced (sy_ctl s)) (sy_armed s) j" if "j \<noteq> i" for j
    using ctl that by (auto simp: chan_room_def)
  have "chans_ok ?w (announced ctl) (sy_armed s) ((ss_chans (sy_streamer s))(sub_chan i \<mapsto> q'))"
    unfolding chans_ok_def
  proof (intro allI impI)
    fix j p
    assume p: "((ss_chans (sy_streamer s))(sub_chan i \<mapsto> q')) (sub_chan j) = Some p"
    show "length p \<le> chan_room ?w (announced ctl) (sy_armed s) j"
      using p l o [of j] assms(1) unfolding flow_ok_def chans_ok_def by (cases "j = i") auto
  qed
  moreover have "live_ok (sy_ids s) ctl (subs_abs (ss_manager (sy_streamer s))) ((ss_chans (sy_streamer s))(sub_chan i \<mapsto> q'))"
    using assms(1,2) ctl live_ok_snoc [of _ _ _ _ "WakerMsg i w"] unfolding flow_ok_def by (auto intro!: live_ok_upd)
  moreover have "\<forall>m \<in> set ctl. msg_ok (sy_ids s) m"
    using assms(1) ctl unfolding flow_ok_def by auto
  ultimately have "flow_ok (set_chan i (Some q') (s\<lparr>sy_ctl := ctl\<rparr>))"
    using assms(1) e unfolding flow_ok_def set_chan_def by auto
  then show ?thesis
    by (simp add: flow_ok_deliver)
qed

lemma sys_upd_commute: "s\<lparr>sy_ids := ids, sy_ctl := ctl\<rparr> = s\<lparr>sy_ctl := ctl, sy_ids := ids\<rparr>"
  by (rule stream_sys.equality) simp_all

lemma flow_ok_fresh:
  assumes "flow_ok s" and "sy_ids s i = None"
  shows "flow_ok (s\<lparr>sy_ids := (sy_ids s)(i \<mapsto> t)\<rparr>)"
proof -
  let ?ids = "(sy_ids s)(i \<mapsto> t)"
  have m: "msg_ok (sy_ids s) msg \<Longrightarrow> msg_ok ?ids msg" for msg
    using assms(2) by (cases msg) auto
  have "live_ok ?ids (sy_ctl s) (subs_abs (ss_manager (sy_streamer s))) (ss_chans (sy_streamer s))"
    using assms unfolding flow_ok_def live_ok_def by (metis fun_upd_apply option.distinct(1))
  then show ?thesis
    using assms m by (auto simp: flow_ok_def subs_ok_def)
qed

lemma flow_ok_subscribe:
  assumes "flow_ok s" and "sy_ids s i = None"
    and "stream_notes req i (sub_chan i) (bounded_send CONTROL_CAPACITY) why (sy_ctl s) = (r, ctl)"
  shows "flow_ok (set_chan i (if is_ok r then Some [] else None)
    (s\<lparr>sy_ctl := ctl, sy_ids := (sy_ids s)(i \<mapsto> str_tag req)\<rparr>))"
proof -
  let ?add = "AddSub \<lparr>sf_id = i, sf_tag = str_tag req, sf_tx = sub_chan i\<rparr>"
  let ?rm = "RemoveSub i (str_tag req) ''client_disconnect''"
  let ?s = "s\<lparr>sy_ids := (sy_ids s)(i \<mapsto> str_tag req)\<rparr>"
  have f: "flow_ok ?s"
    by (rule flow_ok_fresh [OF assms(1,2)])
  have n: "ss_chans (sy_streamer s) (sub_chan i) = None"
    using live_okD [OF assms(1)] assms(2) by blast
  have rm: "RemoveSub i t why \<notin> set (sy_ctl s)" for t why
  proof
    assume "RemoveSub i t why \<in> set (sy_ctl s)"
    then have "msg_ok (sy_ids s) (RemoveSub i t why)"
      using assms(1) unfolding flow_ok_def by blast
    then show False using assms(2) by simp
  qed
  show ?thesis
  proof (cases "length (sy_ctl s) < CONTROL_CAPACITY")
    case True
    then have c: "is_ok r" "ctl = sy_ctl s @ [?add]"
      using assms(3) by (auto simp: stream_notes_def bounded_send_def Let_def)
    have "flow_ok (?s\<lparr>sy_ctl := snd (bounded_send CONTROL_CAPACITY ?add (sy_ctl ?s))\<rparr>)"
      by (rule flow_ok_send [OF f]) simp_all
    then have g: "flow_ok (s\<lparr>sy_ctl := ctl, sy_ids := (sy_ids s)(i \<mapsto> str_tag req)\<rparr>)" (is "flow_ok ?g")
      using True c by (simp add: bounded_send_def sys_upd_commute)
    have "live_ok (sy_ids ?g) ctl (subs_abs (ss_manager (sy_streamer s)))
        ((ss_chans (sy_streamer s))(sub_chan i \<mapsto> []))"
      using g rm unfolding flow_ok_def live_ok_def by (auto simp: c(2))
    moreover have "i \<notin> evicted (ss_log (sy_streamer s))"
      using assms(1,2) by (auto simp: flow_ok_def)
    ultimately show ?thesis
      using g c(1) unfolding flow_ok_def set_chan_def chans_ok_def by auto
  next
    case False
    then have c: "\<not> is_ok r" "ctl = sy_ctl s"
      using assms(3) by (auto simp: stream_notes_def sub_drop_def bounded_send_def Let_def)
    then show ?thesis
      using flow_ok_close [OF f, of i] by (simp add: set_chan_def)
  qed
qed

lemma set_chan_ctl: "set_chan i q (s\<lparr>sy_ctl := ctl\<rparr>) = (set_chan i q s)\<lparr>sy_ctl := ctl\<rparr>"
  by (rule stream_sys.equality) (simp_all add: set_chan_def)

lemma flow_ok_drop:
  assumes "flow_ok s" and "sy_ids s i = Some t"
  shows "flow_ok (set_chan i None
     (s\<lparr>sy_ctl := sub_drop \<lparr>sub_sid = i, sub_tag = t\<rparr> (bounded_send CONTROL_CAPACITY) (sy_ctl s)\<rparr>))"
proof -
  let ?s = "set_chan i None s"
  have "flow_ok (?s\<lparr>sy_ctl := snd (bounded_send CONTROL_CAPACITY (RemoveSub i t ''client_disconnect'') (sy_ctl ?s))\<rparr>)"
    by (rule flow_ok_send [OF flow_ok_close [OF assms(1)]]) (simp_all add: assms(2) set_chan_def)
  then show ?thesis
    by (simp add: sub_drop_def set_chan_ctl) (simp add: set_chan_def)
qed

lemma flow_step_ok:
  assumes "flow_ok s" and "flow_step x P s s'"
  shows "flow_ok s'"
  using assms(2)
proof cases
  case (subscribe i req why r ctl)
  show ?thesis
    unfolding subscribe(1) by (rule flow_ok_subscribe [OF assms(1) subscribe(2,3)])
next
  case (poll i t q recv q' w r ctl)
  show ?thesis
    unfolding poll(1) by (rule flow_ok_poll [OF assms(1) poll(3-5)])
next
  case (drop i t)
  show ?thesis
    unfolding drop(1) by (rule flow_ok_drop [OF assms(1) drop(2)])
next
  case arm
  show ?thesis
    unfolding arm(1) by (rule flow_ok_arm [OF assms(1) arm(2)])
next
  case (control msg ctl e r st)
  show ?thesis
    unfolding control(1) by (rule flow_ok_control [OF assms(1) control(2,3)])
next
  case (round e r st)
  show ?thesis
    unfolding round(1) by (rule flow_ok_round [OF assms(1) round(2,4,5)])
qed

lemma flow_run_ok: "(flow_step x P)\<^sup>*\<^sup>* s s' \<Longrightarrow> flow_ok s \<Longrightarrow> flow_ok s'"
  by (induction rule: rtranclp_induct) (auto intro: flow_step_ok)

end
