(* ===== verification/StreamHistory.thy ===== *)
theory StreamHistory
  imports StreamFlow
begin

text \<open>
  What a subscription has been given over the history of the streaming task and its subscribers:
  which notes, in which order, and which ones it missed.
\<close>

section \<open>One channel during a round\<close>

lemma forward_sub_chan:
  assumes "se_tx (snd sub) = sub_chan (fst sub)" and "fw_chans s (sub_chan i) = Some q"
    and "bt_get (fw_wakers s) i \<noteq> None \<longrightarrow> length q < SUB_CAPACITY"
  shows "fw_chans (forward_sub chan_send t pg sub s) (sub_chan i) =
      Some (q @ (if fst sub = i \<and> bt_get (fw_wakers s) i \<noteq> None then [pg] else []))"
    "bt_get (fw_wakers (forward_sub chan_send t pg sub s)) i =
      (if fst sub = i then None else bt_get (fw_wakers s) i)"
  using assms
  by (auto simp: forward_sub_def chan_send_def bounded_send_def Let_def bt_get_remove
      split: option.splits)

lemma forward_subs_chan:
  assumes "\<forall>sub \<in> set subs. se_tx (snd sub) = sub_chan (fst sub)" and "fw_chans s (sub_chan i) = Some q"
    and "bt_get (fw_wakers s) i \<noteq> None \<longrightarrow> length q < SUB_CAPACITY"
  shows "fw_chans (fold (forward_sub chan_send t pg) subs s) (sub_chan i) =
      Some (q @ (if i \<in> fst ` set subs \<and> bt_get (fw_wakers s) i \<noteq> None then [pg] else []))
    \<and> bt_get (fw_wakers (fold (forward_sub chan_send t pg) subs s)) i =
      (if i \<in> fst ` set subs then None else bt_get (fw_wakers s) i)"
  using assms
proof (induction subs arbitrary: s q)
  case Nil
  then show ?case by simp
next
  case (Cons sub subs)
  have tx: "se_tx (snd sub) = sub_chan (fst sub)"
    using Cons.prems(1) by simp
  note f = forward_sub_chan [OF tx Cons.prems(2,3), of t pg]
  have l: "bt_get (fw_wakers (forward_sub chan_send t pg sub s)) i \<noteq> None \<longrightarrow>
      length (q @ (if fst sub = i \<and> bt_get (fw_wakers s) i \<noteq> None then [pg] else [])) < SUB_CAPACITY"
    using Cons.prems(3) unfolding f(2) by auto
  have h: "\<forall>sub \<in> set subs. se_tx (snd sub) = sub_chan (fst sub)"
    using Cons.prems(1) by simp
  show ?case
    using Cons.IH [OF h f(1) l] unfolding f(2) by auto
qed

text \<open>A page of the subscription's tag reaches its channel exactly when its waker is stored.\<close>

definition tag_pages :: "(u32 \<times> transport_notes_pg) list \<Rightarrow> u32 \<Rightarrow> transport_notes_pg list" where
  "tag_pages upd t = map snd (filter (\<lambda>u. fst u = t) upd)"

lemma tag_pages_simps [simp]:
  "tag_pages [] t = []"
  "tag_pages (u # upd) t = (if fst u = t then snd u # tag_pages upd t else tag_pages upd t)"
  by (simp_all add: tag_pages_def)

lemma tag_pages_Nil: "t \<notin> fst ` set upd \<Longrightarrow> tag_pages upd t = []"
  by (induction upd) auto

lemma tag_pages_map_of: "distinct (map fst upd) \<Longrightarrow> tag_pages upd t = (case map_of upd t of None \<Rightarrow> [] | Some pg \<Rightarrow> [pg])"
proof (induction upd)
  case Nil
  then show ?case by simp
next
  case (Cons u upd)
  have "tag_pages upd (fst u) = []"
    using Cons.prems by (simp add: tag_pages_Nil)
  with Cons show ?case
    by (cases u) auto
qed

lemma forward_tags_chan:
  assumes "mg_ok m" and "subs_ok ids m" and "ids i = Some t" and "distinct (map fst upd)"
    and "fw_chans s (sub_chan i) = Some q" and "bt_get (fw_wakers s) i \<noteq> None \<longrightarrow> length q < SUB_CAPACITY"
  shows "fw_chans (fold (forward_tag chan_send (mg_tags m)) upd s) (sub_chan i) =
    Some (q @ (if subs_abs m (t, i) \<noteq> None \<and> bt_get (fw_wakers s) i \<noteq> None then tag_pages upd t else []))"
  using assms(4-6)
proof (induction upd arbitrary: s q)
  case Nil
  then show ?case by simp
next
  case (Cons u upd)
  obtain t' pg where u: "u = (t', pg)" by (cases u) blast
  have tx: "\<forall>sub \<in> set (tag_subs m t'). se_tx (snd sub) = sub_chan (fst sub)"
  proof
    fix sub
    assume "sub \<in> set (tag_subs m t')"
    then have "subs_abs m (t', fst sub) = Some (snd sub)"
      using in_tag_subs [OF assms(1), of "fst sub" "snd sub" t'] by simp
    then show "se_tx (snd sub) = sub_chan (fst sub)"
      using assms(2) unfolding subs_ok_def by fastforce
  qed
  have mem: "i \<in> fst ` set (tag_subs m t') \<longleftrightarrow> t' = t \<and> subs_abs m (t, i) \<noteq> None"
  proof
    assume "i \<in> fst ` set (tag_subs m t')"
    then obtain e where e: "subs_abs m (t', i) = Some e"
      using in_tag_subs [OF assms(1)] by force
    then have "ids i = Some t'"
      using assms(2) unfolding subs_ok_def by fastforce
    then show "t' = t \<and> subs_abs m (t, i) \<noteq> None"
      using assms(3) e by auto
  next
    assume "t' = t \<and> subs_abs m (t, i) \<noteq> None"
    then obtain e where "(i, e) \<in> set (tag_subs m t')"
      using in_tag_subs [OF assms(1)] by blast
    then show "i \<in> fst ` set (tag_subs m t')" by force
  qed
  note f = forward_subs_chan [OF tx Cons.prems(2,3), of t' pg, folded forward_tag_fold u, unfolded mem]
  let ?s1 = "forward_tag chan_send (mg_tags m) u s"
  let ?q1 = "q @ (if (t' = t \<and> subs_abs m (t, i) \<noteq> None) \<and> bt_get (fw_wakers s) i \<noteq> None then [pg] else [])"
  have l: "bt_get (fw_wakers ?s1) i \<noteq> None \<longrightarrow> length ?q1 < SUB_CAPACITY"
    using Cons.prems(3) f by auto
  have d: "distinct (map fst upd)"
    using Cons.prems(1) by simp
  have n: "t' = t \<Longrightarrow> tag_pages upd t = []"
    using Cons.prems(1) u by (simp add: tag_pages_Nil)
  show ?case
    using Cons.IH [OF d conjunct1 [OF f] l] f n by (auto simp: u)
qed

lemma forward_updates_chan:
  assumes "mg_ok m" and "subs_ok ids m" and "ids i = Some t" and "distinct (map fst upd)"
    and "chans (sub_chan i) = Some q" and "bt_get (mg_wakers m) i \<noteq> None \<longrightarrow> length q < SUB_CAPACITY"
    and "forward_updates chan_send now upd m chans = (m', chans', woken, l)"
  shows "chans' (sub_chan i) =
    Some (q @ (if subs_abs m (t, i) \<noteq> None \<and> bt_get (mg_wakers m) i \<noteq> None then tag_pages upd t else []))"
proof -
  let ?s = "\<lparr>fw_wakers = mg_wakers m, fw_chans = chans, fw_woken = [], fw_remove = []\<rparr> :: chans forward_state"
  have "chans' = fw_chans (fold (forward_tag chan_send (mg_tags m)) upd ?s)"
    using assms(7) by (simp add: forward_updates_def Let_def case_prod_beta prod_eq_iff)
  then show ?thesis
    using forward_tags_chan [OF assms(1-4), of ?s q] assms(5,6) by simp
qed

section \<open>One round, seen from a live subscription\<close>

abbreviation sys_manager :: "stream_sys \<Rightarrow> manager" where
  "sys_manager s \<equiv> ss_manager (sy_streamer s)"

abbreviation queue :: "stream_sys \<Rightarrow> sub_id \<Rightarrow> transport_notes_pg list option" where
  "queue s i \<equiv> ss_chans (sy_streamer s) (sub_chan i)"

lemma tag_cursor_subscribed: "subs_abs m (t, i) \<noteq> None \<Longrightarrow> tag_cursor m t \<noteq> None"
  by (auto simp: subs_abs_def tag_cursor_def split: option.splits)

lemma subscribed_tag:
  "subs_ok ids m \<Longrightarrow> ids i = Some t \<Longrightarrow> subs_abs m (t', i) \<noteq> None \<Longrightarrow> t' = t"
  unfolding subs_ok_def by fastforce

lemma round_cases:
  assumes ok: "flow_ok s" and armed: "sy_armed s" and tx: "env_tx e = chan_send"
    and st: "streamer_step x e QueryReady (sy_streamer s) = (r, st)"
  obtains (failed) err where
      "fst (query_updates x (env_faults e) (env_dbs e) (sys_manager s) (ss_tel (sy_streamer s))) = Err err"
      "ss_manager st = sys_manager s" "ss_chans st = ss_chans (sy_streamer s)"
  | (forwarded) upd u woken l where
      "fst (query_updates x (env_faults e) (env_dbs e) (sys_manager s) (ss_tel (sy_streamer s))) = Ok upd"
      "u = update_timestamps upd (sys_manager s)"
      "mg_ok u" "subs_ok (sy_ids s) u" "subs_abs u = subs_abs (sys_manager s)"
      "chans_ok (mg_wakers u) (announced (sy_ctl s)) True (ss_chans (sy_streamer s))"
      "forward_updates chan_send (env_now e) upd u (ss_chans (sy_streamer s)) = (ss_manager st, ss_chans st, woken, l)"
proof -
  let ?s = "sy_streamer s" and ?m = "sys_manager s"
  have m: "mg_ok ?m" "subs_ok (sy_ids s) ?m"
    and c: "chans_ok (mg_wakers ?m) (announced (sy_ctl s)) True (ss_chans ?s)"
    using ok armed by (simp_all add: flow_ok_def)
  obtain q tel where q: "query_updates x (env_faults e) (env_dbs e) ?m (ss_tel ?s) = (q, tel)"
    by fastforce
  show ?thesis
  proof (cases q)
    case (Err err)
    show ?thesis
      by (rule failed [of err]) (use st q Err in auto)
  next
    case (Ok upd)
    let ?u = "update_timestamps upd ?m"
    obtain m' chans' woken l where f:
        "forward_updates chan_send (env_now e) upd ?u (ss_chans ?s) = (m', chans', woken, l)"
      by (metis prod_cases4)
    then have "ss_manager st = m'" "ss_chans st = chans'"
      using st tx q Ok by (auto simp: Let_def)
    with f q Ok m c show ?thesis
      by (intro forwarded [of upd ?u woken l]) (simp_all add: update_timestamps_ok subs_ok_def subs_abs_timestamps)
  qed
qed

lemma room_below_capacity:
  assumes "chans_ok w ann True chans" and "chans (sub_chan i) = Some q"
  shows "bt_get w i \<noteq> None \<longrightarrow> length q < SUB_CAPACITY"
proof -
  have "length q \<le> chan_room w ann True i"
    using assms unfolding chans_ok_def by blast
  then show ?thesis
    by (auto simp: chan_room_def SUB_CAPACITY_def split: if_splits)
qed

lemma query_updates_distinct:
  assumes "\<And>t. db_ok x (dbs t)" "codec_ok x" and "mg_ok m" and "fst (query_updates x fs dbs m tel) = Ok upd"
  shows "distinct (map fst upd)"
proof -
  have "upd = round_updates dbs (mg_tags m)"
    by (rule query_updates_OkD [where dbs = dbs, OF assms(1,2)]) (use assms(4) in \<open>simp add: prod_eq_iff\<close>)
  then show ?thesis
    using round_updates_tags [OF mg_okD(1) [OF assms(3)]] by simp
qed

text \<open>
  The channel of a subscription the manager knows takes the notes its tag's query returned, when
  its waker is stored; otherwise it misses them.
\<close>

lemma round_live:
  assumes ok: "flow_ok s" and armed: "sy_armed s" and tx: "env_tx e = chan_send"
    and dbs: "\<And>t. db_ok x (env_dbs e t)" "codec_ok x"
    and st: "streamer_step x e QueryReady (sy_streamer s) = (r, st)"
    and q: "queue s i = Some q" and i: "sy_ids s i = Some t" "subs_abs (sys_manager s) (t, i) \<noteq> None"
  shows "\<exists>qs. ss_chans st (sub_chan i) = Some (q @ qs)
    \<and> concat (map fst qs) = (if bt_get (mg_wakers (sys_manager s)) i = None then [] else step_notes x e QueryReady (sy_streamer s) t)
    \<and> concat (map fst (round_missed x e (sy_streamer s) i)) =
        (if bt_get (mg_wakers (sys_manager s)) i = None then step_notes x e QueryReady (sy_streamer s) t else [])
    \<and> subs_abs (ss_manager st) (t, i) \<noteq> None"
  using ok armed tx st
proof (cases rule: round_cases)
  case (failed err)
  then show ?thesis
    using q i(2) by (simp add: step_notes_def round_missed_def)
next
  case (forwarded upd u woken l)
  let ?m = "sys_manager s"
  have m: "mg_ok ?m" "subs_ok (sy_ids s) ?m"
    using ok by (simp_all add: flow_ok_def)
  have d: "distinct (map fst upd)"
    by (rule query_updates_distinct [OF dbs m(1) forwarded(1)])
  have w: "mg_wakers u = mg_wakers ?m"
    by (simp add: forwarded(2))
  have ch: "ss_chans st (sub_chan i) = Some (q @ (if bt_get (mg_wakers ?m) i \<noteq> None then tag_pages upd t else []))"
    using forward_updates_chan [OF forwarded(3,4) i(1) d q room_below_capacity [OF forwarded(6) q] forwarded(7)] i(2)
    by (simp add: forwarded(5) w)
  have n: "step_notes x e QueryReady (sy_streamer s) t = concat (map fst (tag_pages upd t))"
    using forwarded(1) by (simp add: step_notes_def tag_pages_map_of [OF d] split: option.split)
  have "filter (\<lambda>u. subs_abs ?m (fst u, i) \<noteq> None) upd = filter (\<lambda>u. fst u = t) upd"
    by (rule filter_cong [OF refl]) (use subscribed_tag [OF m(2) i(1)] i(2) in metis)
  then have ms: "round_missed x e (sy_streamer s) i = (if bt_get (mg_wakers ?m) i = None then tag_pages upd t else [])"
    using forwarded(1) by (simp add: round_missed_def tag_pages_def)
  have "subs_abs (ss_manager st) (t, i) \<noteq> None"
    using forward_updates_flow(5) [OF forwarded(3,4,6,7), of i t] q i(2) by (simp add: forwarded(5))
  then show ?thesis
    unfolding n ms using ch by (cases "bt_get (mg_wakers ?m) i") simp_all
qed

text \<open>A subscription the manager does not know yet, or a dead one, is left alone.\<close>

lemma round_missed_unknown:
  "(\<And>t. subs_abs (sys_manager s) (t, i) = None) \<Longrightarrow> round_missed x e (sy_streamer s) i = []"
  by (simp add: round_missed_def split: result.split)

lemma round_unknown:
  assumes ok: "flow_ok s" and armed: "sy_armed s" and tx: "env_tx e = chan_send"
    and dbs: "\<And>t. db_ok x (env_dbs e t)" "codec_ok x"
    and st: "streamer_step x e QueryReady (sy_streamer s) = (r, st)"
    and q: "queue s i = Some q" and i: "sy_ids s i = Some t" "subs_abs (sys_manager s) (t, i) = None"
  shows "ss_chans st (sub_chan i) = Some q \<and> subs_abs (ss_manager st) (t, i) = None"
  using ok armed tx st
proof (cases rule: round_cases)
  case (failed err)
  then show ?thesis
    using q i(2) by simp
next
  case (forwarded upd u woken l)
  have "mg_ok (sys_manager s)"
    using ok by (simp add: flow_ok_def)
  then have d: "distinct (map fst upd)"
    by (rule query_updates_distinct [OF dbs _ forwarded(1)])
  show ?thesis
    using forward_updates_chan [OF forwarded(3,4) i(1) d q room_below_capacity [OF forwarded(6) q] forwarded(7)]
      forward_updates_flow(5) [OF forwarded(3,4,6,7), of i t] q i(2) by (simp add: forwarded(5))
qed

lemma round_dead:
  assumes "flow_ok s" and "sy_armed s" and "env_tx e = chan_send"
    and "streamer_step x e QueryReady (sy_streamer s) = (r, st)"
  shows "ss_chans st ch = None \<longleftrightarrow> ss_chans (sy_streamer s) ch = None"
  using assms
proof (cases rule: round_cases)
  case (failed err)
  then show ?thesis by simp
next
  case (forwarded upd u woken l)
  from forward_updates_flow(2) [OF forwarded(3,4,6,7)] show ?thesis .
qed

lemma round_cursor_back:
  assumes ok: "flow_ok s" and armed: "sy_armed s" and tx: "env_tx e = chan_send"
    and st: "streamer_step x e QueryReady (sy_streamer s) = (r, st)"
    and dbs: "\<And>t. db_ok x (env_dbs e t)" "codec_ok x"
    and c: "tag_cursor (ss_manager st) t = Some c"
  shows "\<exists>c0. tag_cursor (sys_manager s) t = Some c0"
  using ok armed tx st
proof (cases rule: round_cases)
  case (failed err)
  then show ?thesis
    using c by simp
next
  case (forwarded upd u woken l)
  have "mg_ok (sys_manager s)"
    using ok by (simp add: flow_ok_def)
  then have d: "distinct (map fst upd)"
    by (rule query_updates_distinct [OF dbs _ forwarded(1)])
  have "tag_cursor u t = Some c"
    using forward_updates_cursor [of chan_send "env_now e" upd u] c forwarded(7) by (metis fst_conv)
  then show ?thesis
    unfolding forwarded(2) update_timestamps_cursor [OF d] by (auto split: option.splits)
qed

lemma received_cursor:
  assumes "tag_cursor (ss_manager s) t = Some c" and "streamer_step x e (Received msg) s = (r, st)"
    and "tag_cursor (ss_manager st) t = Some c'"
  shows "c' = c"
  using assms add_sub_cursor [OF assms(1)]
  by (cases msg) (auto simp: case_prod_beta update_waker_def tag_cursor_def [symmetric] dest!: remove_sub_cursor)

end
