(* ===== verification/StreamAnnounce.thy ===== *)
theory StreamAnnounce
  imports StreamHistory
begin

text \<open>
  A subscription is announced once: its \<open>AddSub\<close> is on the control channel or has been taken, never
  both, so the cursor its history starts from is fixed when the manager takes it in.
\<close>

section \<open>One announcement\<close>

definition is_add :: "sub_id \<Rightarrow> streamer_message \<Rightarrow> bool" where
  "is_add i m \<longleftrightarrow> (case m of AddSub sub \<Rightarrow> sf_id sub = i | _ \<Rightarrow> False)"

definition known :: "stream_sys \<Rightarrow> sub_id \<Rightarrow> bool" where
  "known s i \<longleftrightarrow> (\<exists>t. subs_abs (sys_manager s) (t, i) \<noteq> None)"

definition once_ok :: "stream_sys \<Rightarrow> bool" where
  "once_ok s \<longleftrightarrow> (\<forall>i. length (filter (is_add i) (sy_ctl s)) + (if known s i then 1 else 0) \<le> 1)"

lemma is_add_simps [simp]:
  "is_add i (AddSub sub) \<longleftrightarrow> sf_id sub = i" "\<not> is_add i (RemoveSub j t why)"
  "\<not> is_add i (WakerMsg j w)" "\<not> is_add i Shutdown"
  by (simp_all add: is_add_def)

lemma once_ok_init: "once_ok (sys_init tel)"
  by (simp add: once_ok_def known_def sys_init_def subs_abs_def manager_new_def)

text \<open>Nothing is announced or known of an id that was not handed out.\<close>

lemma fresh_not_announced:
  assumes "flow_ok s" and "sy_ids s i = None"
  shows "filter (is_add i) (sy_ctl s) = []" "\<not> known s i"
proof -
  have "\<not> is_add i m" if "m \<in> set (sy_ctl s)" for m
    using assms that unfolding flow_ok_def by (cases m) (auto simp: is_add_def)
  then show "filter (is_add i) (sy_ctl s) = []"
    by (simp add: filter_empty_conv)
  show "\<not> known s i"
    using assms unfolding flow_ok_def subs_ok_def known_def by force
qed

lemma once_ok_mono:
  assumes "once_ok s" and "\<And>i. length (filter (is_add i) (sy_ctl s')) \<le> length (filter (is_add i) (sy_ctl s))"
    and "\<And>i. known s' i \<Longrightarrow> known s i"
  shows "once_ok s'"
  unfolding once_ok_def
proof
  fix i
  show "length (filter (is_add i) (sy_ctl s')) + (if known s' i then 1 else 0) \<le> 1"
    using assms(1) assms(2,3) [of i] unfolding once_ok_def by (smt (verit) le_trans add_mono le_refl zero_le)
qed

lemma round_known:
  assumes "flow_ok s" and "sy_armed s" and "env_tx e = chan_send"
    and "streamer_step x e QueryReady (sy_streamer s) = (r, st)" and "subs_abs (ss_manager st) p \<noteq> None"
  shows "subs_abs (sys_manager s) p \<noteq> None"
  using assms(1-4)
proof (cases rule: round_cases)
  case (failed err)
  then show ?thesis
    using assms(5) by simp
next
  case (forwarded upd u woken l)
  define F where "F = fold (forward_tag chan_send (mg_tags u)) upd
      \<lparr>fw_wakers = mg_wakers u, fw_chans = ss_chans (sy_streamer s), fw_woken = [], fw_remove = []\<rparr>"
  have "ss_manager st = fst (remove_subs (env_now e) (fw_remove F) (u\<lparr>mg_wakers := fw_wakers F\<rparr>))"
    using forwarded(7) by (simp add: forward_updates_def F_def Let_def case_prod_beta prod_eq_iff)
  with assms(5) obtain en where "subs_abs (u\<lparr>mg_wakers := fw_wakers F\<rparr>) p = Some en"
    using remove_subs_abs_SomeD by (metis option.exhaust)
  then show ?thesis
    by (simp add: forwarded(5) [symmetric])
qed

lemma flow_step_once:
  assumes "flow_step x P s s'" and "flow_ok s" and "once_ok s"
  shows "once_ok s'"
  using assms(1)
proof cases
  case (subscribe i req why r ctl)
  have ctl: "length (filter (is_add j) ctl) \<le> length (filter (is_add j) (sy_ctl s)) + (if j = i then 1 else 0)" for j
    using subscribe(3) by (auto simp: stream_notes_def bounded_send_def sub_drop_def Let_def split: if_splits)
  have k: "known s' j = known s j" for j
    by (simp add: subscribe(1) known_def set_chan_def)
  show ?thesis
    unfolding once_ok_def
  proof
    fix j
    show "length (filter (is_add j) (sy_ctl s')) + (if known s' j then 1 else 0) \<le> 1"
      using ctl [of j] fresh_not_announced [OF assms(2) subscribe(2)] spec [OF assms(3) [unfolded once_ok_def], of j]
      by (auto simp: k) (simp_all add: subscribe(1) set_chan_def split: if_splits)
  qed
next
  case (poll i t q recv q' w r ctl)
  have "ctl = sy_ctl s \<or> ctl = sy_ctl s @ [WakerMsg i w]"
    using poll(5) by (auto simp: sub_poll_next_def bounded_send_def Let_def case_prod_beta split: if_splits poll.splits option.splits)
  then show ?thesis
    by (intro once_ok_mono [OF assms(3)]) (auto simp: poll(1) known_def set_chan_def)
next
  case (drop i t)
  show ?thesis
    by (rule once_ok_mono [OF assms(3)]) (auto simp: drop(1) known_def set_chan_def sub_drop_def bounded_send_def)
next
  case arm
  show ?thesis
    by (rule once_ok_mono [OF assms(3)]) (auto simp: arm(1) known_def)
next
  case (control msg ctl e r st)
  have a: "subs_abs (ss_manager st) = subs_spec (env_now e) msg (subs_abs (sys_manager s))"
    using streamer_step_subs [of x e msg "sy_streamer s"] control(3) by simp
  have k: "known s' j \<Longrightarrow> known s j \<or> is_add j msg" for j
    by (cases msg) (auto simp: control(1) known_def a split: if_splits)
  show ?thesis
    unfolding once_ok_def
  proof
    fix j
    have "length (filter (is_add j) (msg # ctl)) + (if known s j then 1 else 0) \<le> 1"
      using assms(3) control(2) unfolding once_ok_def by metis
    then show "length (filter (is_add j) (sy_ctl s')) + (if known s' j then 1 else 0) \<le> 1"
      using k [of j] by (auto simp: control(1) split: if_splits)
  qed
next
  case (round e r st)
  have "known s i" if k: "known s' i" for i
  proof -
    obtain t where "subs_abs (ss_manager st) (t, i) \<noteq> None"
      using k by (auto simp: known_def round(1) simp del: not_None_eq)
    then have "subs_abs (sys_manager s) (t, i) \<noteq> None"
      by (rule round_known [OF assms(2) round(2,4,5)])
    then show ?thesis
      unfolding known_def by blast
  qed
  moreover have "sy_ctl s' = sy_ctl s"
    by (simp add: round(1))
  ultimately show ?thesis
    by (intro once_ok_mono [OF assms(3)]) simp_all
qed

section \<open>What a poll leaves alone\<close>

lemma deliver_got [simp]:
  "sy_missed (deliver i r s) = sy_missed s" "sy_from (deliver i r s) = sy_from s"
  "j \<noteq> i \<Longrightarrow> sy_got (deliver i r s) j = sy_got s j"
  by (simp_all add: deliver_def split: poll.split option.split result.split)

lemma set_chan_simps [simp]:
  "queue (set_chan i q s) j = (if j = i then q else queue s j)"
  "sys_manager (set_chan i q s) = sys_manager s" "sy_got (set_chan i q s) = sy_got s"
  "sy_ids (set_chan i q s) = sy_ids s" "sy_missed (set_chan i q s) = sy_missed s"
  "sy_from (set_chan i q s) = sy_from s" "sy_armed (set_chan i q s) = sy_armed s"
  by (simp_all add: set_chan_def)

end
