(* ===== verification/NodeSystem.thy ===== *)
theory NodeSystem
  imports StreamAnnounce StreamProps Maintenance
begin

text \<open>
  The whole node: the table, the request handlers, the streaming task with its subscribers and the
  maintenance task, in any interleaving. The invariant of the table with its history
  and of the cursors of the tracked tags.
\<close>

section \<open>The system\<close>

text \<open>
  \<open>ns_sent\<close> is the history of the table: every row it ever held, in insertion order. \<open>ns_seen\<close> is the
  tables the database has gone through since the query under way began: the queries of its tags
  are separate transactions, and each meets one of them.
\<close>

record node_sys =
  ns_table :: notes_table
  ns_flow :: stream_sys
  ns_maint :: "database_maintenance option"
  ns_sent :: "note_row list"
  ns_seen :: "notes_table list"

text \<open>After \<open>Node::init\<close> on a database that holds \<open>t\<close>, with the tasks of \<open>entrypoint\<close> spawned.\<close>

definition node_started :: "u32 \<Rightarrow> telemetry \<Rightarrow> notes_table \<Rightarrow> node_sys" where
  "node_started days tel t =
     \<lparr>ns_table = t, ns_flow = sys_init tel, ns_maint = Some ((maintenance_new days)\<lparr>dm_state := Running\<rparr>),
      ns_sent = tbl_rows t, ns_seen = []\<rparr>"

definition put_table :: "notes_table \<Rightarrow> node_sys \<Rightarrow> node_sys" where
  "put_table t s = s\<lparr>ns_table := t, ns_seen := ns_seen s @ [t],
                     ns_sent := ns_sent s @ drop (length (tbl_rows (ns_table s))) (tbl_rows t)\<rparr>"

definition put_flow :: "stream_sys \<Rightarrow> node_sys \<Rightarrow> node_sys" where
  "put_flow fl s = s\<lparr>ns_flow := fl,
     ns_seen := (if sy_armed fl \<and> \<not> sy_armed (ns_flow s) then [ns_table s] else ns_seen s)\<rparr>"

text \<open>
  A request of any client runs its handler on the table; the maintenance task runs its step, or
  ends when the cleanup panics; the streaming task and the streams take theirs. The telemetry
  that measures the calls decides nothing and is any.
\<close>

inductive node_step :: "('h, 't) extern \<Rightarrow> grpc_server_config \<Rightarrow> node_sys \<Rightarrow> node_sys \<Rightarrow> bool" for x cfg where
  send: "send_note x cfg f now req (ns_table s) tel = (r, t', tel') \<Longrightarrow> node_step x cfg s (put_table t' s)"
| fetch: "fetch_notes x f req (ns_table s) tel = (r, tel') \<Longrightarrow> node_step x cfg s s"
| count: "stats f (ns_table s) = r \<Longrightarrow> node_step x cfg s s"
| maintain: "ns_maint s = Some m \<Longrightarrow> is_active m \<Longrightarrow>
     maintenance_step x f now m (ns_table s) tel = Some (r, pause, t', tel') \<Longrightarrow>
     node_step x cfg s (put_table t' s)"
| maintenance_panic: "ns_maint s = Some m \<Longrightarrow> is_active m \<Longrightarrow>
     maintenance_step x f now m (ns_table s) tel = None \<Longrightarrow> node_step x cfg s (s\<lparr>ns_maint := None\<rparr>)"
| stream: "flow_step x (\<lambda>dbs. \<forall>t. dbs t \<in> set (ns_seen s)) (ns_flow s) fl \<Longrightarrow>
     node_step x cfg s (put_flow fl s)"

inductive_cases node_stepE: "node_step x cfg s s'"

lemma put_simps [simp]:
  "ns_table (put_table t s) = t" "ns_flow (put_table t s) = ns_flow s" "ns_maint (put_table t s) = ns_maint s"
  "ns_table (put_flow fl s) = ns_table s" "ns_flow (put_flow fl s) = fl" "ns_maint (put_flow fl s) = ns_maint s"
  "ns_sent (put_flow fl s) = ns_sent s" "ns_seen (put_table t s) = ns_seen s @ [t]"
  "ns_sent (put_table t s) = ns_sent s @ drop (length (tbl_rows (ns_table s))) (tbl_rows t)"
  by (simp_all add: put_table_def put_flow_def)

section \<open>The table and its history\<close>

definition table_hist_ok :: "('h, 't) extern \<Rightarrow> grpc_server_config \<Rightarrow> node_sys \<Rightarrow> bool" where
  "table_hist_ok x cfg s \<longleftrightarrow>
     db_ok x (ns_table s)
     \<and> (\<forall>t \<in> set (ns_seen s). db_ok x t \<and> (db_step x cfg)\<^sup>*\<^sup>* t (ns_table s) \<and> set (tbl_rows t) \<subseteq> set (ns_sent s))
     \<and> sorted_wrt (<) (map row_key (ns_sent s))
     \<and> (\<forall>r \<in> set (ns_sent s). row_key r \<le> sint (tbl_seq (ns_table s)))
     \<and> set (tbl_rows (ns_table s)) \<subseteq> set (ns_sent s)"

lemma db_run_ok: "(db_step x cfg)\<^sup>*\<^sup>* t t' \<Longrightarrow> db_ok x t \<Longrightarrow> db_ok x t'"
  by (induction rule: rtranclp_induct) (auto intro: db_step_ok)

lemma db_run_high: "(db_step x cfg)\<^sup>*\<^sup>* t t' \<Longrightarrow> db_ok x t \<Longrightarrow> sint (tbl_seq t) \<le> sint (tbl_seq t')"
proof (induction rule: rtranclp_induct)
  case (step u v)
  then show ?case
    using db_step_high [OF db_run_ok] by (meson order_trans)
qed simp

lemma db_run_old:
  "(db_step x cfg)\<^sup>*\<^sup>* t t' \<Longrightarrow> db_ok x t \<Longrightarrow> r \<in> set (tbl_rows t') \<Longrightarrow> row_key r \<le> sint (tbl_seq t) \<Longrightarrow>
     r \<in> set (tbl_rows t)"
proof (induction rule: rtranclp_induct)
  case (step u v)
  then show ?case
    using db_step_old [OF db_run_ok] db_run_high by (meson order_trans)
qed simp

lemma maintenance_db_step:
  assumes "maintenance_step x f now m t tel = Some (r, k, t', tel')"
  shows "db_step x cfg t t'"
proof -
  obtain q where "db_cleanup_old_notes x f now (dm_retention_days m) t = Some (q, t')"
    using assms by (auto simp: maintenance_step_def Let_def split: prod.splits option.splits result.splits)
  then show ?thesis
    by (rule db_step.cleanup)
qed

lemma table_hist_put_table:
  assumes "table_hist_ok x cfg s" and "db_step x cfg (ns_table s) t"
  shows "table_hist_ok x cfg (put_table t s)"
proof -
  have ok: "db_ok x (ns_table s)"
    using assms(1) by (simp add: table_hist_ok_def)
  let ?new = "drop (length (tbl_rows (ns_table s))) (tbl_rows t)"
  have "set (tbl_rows t) \<subseteq> set (tbl_rows (ns_table s)) \<union> set ?new
    \<and> sorted_wrt (<) (map row_key ?new)
    \<and> (\<forall>r \<in> set ?new. sint (tbl_seq (ns_table s)) < row_key r \<and> row_key r \<le> sint (tbl_seq t))"
    using assms(2)
  proof cases
    case (send f now req tel r tel')
    show ?thesis
      by (cases rule: send_note_cases [OF db_ok_table [OF ok] send]) (auto simp: row_of_new_def)
  next
    case (cleanup f now days r)
    show ?thesis
      by (cases rule: db_cleanup_cases [OF cleanup]) (auto simp: length_filter_le)
  qed
  moreover have "db_ok x t"
    by (rule db_step_ok [OF ok assms(2)])
  moreover note db_step_high [OF ok assms(2)]
  ultimately show ?thesis
    using assms unfolding table_hist_ok_def
    by (fastforce simp: sorted_wrt_append intro: rtranclp.rtrancl_into_rtrancl)
qed

lemma table_hist_put_flow: "table_hist_ok x cfg s \<Longrightarrow> table_hist_ok x cfg (put_flow fl s)"
  by (auto simp: table_hist_ok_def put_flow_def)

section \<open>Tag cursors\<close>

definition cursors_ok :: "node_sys \<Rightarrow> bool" where
  "cursors_ok s \<longleftrightarrow> (\<forall>t c. tag_cursor (sys_manager (ns_flow s)) t = Some c \<longrightarrow> uint c \<le> sint (tbl_seq (ns_table s)))"

lemma received_new_cursor:
  assumes "streamer_step x e (Received msg) s = (r, st)" and "tag_cursor (ss_manager st) t = Some c"
  shows "tag_cursor (ss_manager s) t = Some c \<or> c = 0"
proof (cases msg)
  case (AddSub sub)
  then have st: "ss_manager st = fst (add_sub (env_now e) sub (ss_manager s))"
    using assms(1) by (auto simp: case_prod_beta)
  show ?thesis
    using assms(2) unfolding st tag_cursor_def add_sub_get
    by (cases "bt_get (mg_tags (ss_manager s)) (sf_tag sub)") (auto split: if_splits)
next
  case (RemoveSub i t' why)
  then have st: "ss_manager st = fst (remove_sub (env_now e) i t' why (ss_manager s))"
    using assms(1) by (auto simp: case_prod_beta)
  show ?thesis
    using remove_sub_cursor [OF assms(2) [unfolded st]] by blast
qed (use assms in \<open>auto simp: update_waker_def tag_cursor_def\<close>)

lemma cursors_put_table:
  assumes "table_hist_ok x cfg s" and "cursors_ok s" and "db_step x cfg (ns_table s) t"
  shows "cursors_ok (put_table t s)"
proof -
  have "sint (tbl_seq (ns_table s)) \<le> sint (tbl_seq t)"
    using assms(1,3) db_step_high unfolding table_hist_ok_def by blast
  then show ?thesis
    using assms(2) unfolding cursors_ok_def put_simps by (meson order_trans)
qed

lemma seen_round:
  assumes "table_hist_ok x cfg s" and "\<forall>t. env_dbs e t \<in> set (ns_seen s)"
  shows "db_ok x (env_dbs e t)" "(db_step x cfg)\<^sup>*\<^sup>* (env_dbs e t) (ns_table s)"
    "set (tbl_rows (env_dbs e t)) \<subseteq> set (ns_sent s)"
  using assms unfolding table_hist_ok_def by auto

lemma page_end_high:
  assumes "table_hist_ok x cfg s" and "\<forall>t. env_dbs e t \<in> set (ns_seen s)" and "uint c \<le> sint (tbl_seq (ns_table s))"
  shows "page_end (uint c) (pull_page tags (env_dbs e t) (uint c)) \<le> sint (tbl_seq (ns_table s))"
proof (rule page_end_le [OF assms(3)])
  fix r
  assume "r \<in> set (pull_page tags (env_dbs e t) (uint c))"
  then have "r \<in> set (ns_sent s)"
    using pull_page_rows seen_round(3) [OF assms(1,2)] by blast
  then show "row_key r \<le> sint (tbl_seq (ns_table s))"
    using assms(1) unfolding table_hist_ok_def by blast
qed

lemma cursors_put_flow:
  assumes h: "table_hist_ok x cfg s" and c: "cursors_ok s" and f: "flow_ok (ns_flow s)" and "codec_ok x"
    and "flow_step x (\<lambda>dbs. \<forall>t. dbs t \<in> set (ns_seen s)) (ns_flow s) fl"
  shows "cursors_ok (put_flow fl s)"
  using assms(5)
proof cases
  case (control msg ctl e r st)
  have "uint c' \<le> sint (tbl_seq (ns_table s))" if "tag_cursor (ss_manager st) t = Some c'" for t c'
    using received_new_cursor [OF control(3) that] c table_okD(4) [OF db_ok_table, of x "ns_table s"] h
    by (auto simp: cursors_ok_def table_hist_ok_def)
  then show ?thesis
    unfolding control(1) by (simp add: cursors_ok_def)
next
  case (round e r st)
  have "uint c' \<le> sint (tbl_seq (ns_table s))" if t: "tag_cursor (ss_manager st) t = Some c'" for t c'
  proof -
    have m: "mg_ok (ss_manager (sy_streamer (ns_flow s)))"
      using f by (simp add: flow_ok_def)
    obtain c0 where c0: "tag_cursor (ss_manager (sy_streamer (ns_flow s))) t = Some c0"
      using round_cursor_back [OF f round(2,4,5) seen_round(1) [OF h round(3)] assms(4) t] by blast
    then have "uint c0 \<le> sint (tbl_seq (ns_table s))"
      using c by (simp add: cursors_ok_def)
    moreover from this have "page_end (uint c0) (pull_page [t] (env_dbs e t) (uint c0)) \<le> sint (tbl_seq (ns_table s))"
      by (rule page_end_high [OF h round(3)])
    moreover have "c' = c0 \<or> uint c' = page_end (uint c0) (pull_page [t] (env_dbs e t) (uint c0))"
      using streamer_step_cursor [OF m seen_round(1) [OF h round(3)] assms(4) c0 round(5) t] by blast
    ultimately show ?thesis by auto
  qed
  then show ?thesis
    unfolding round(1) by (simp add: cursors_ok_def)
qed (use c in \<open>auto simp: cursors_ok_def set_chan_def\<close>)

end
