(* ===== verification/NodeHistory.thy ===== *)
theory NodeHistory
  imports NodeSystem
begin

text \<open>
  What a subscriber of \<open>stream_notes\<close> receives while other clients send and old notes are deleted: the
  history of every subscription as an invariant of the node's steps and runs.
\<close>

section \<open>What a subscription has been given\<close>

text \<open>
  What its stream has handed over, what waits in its channel, and what its tag's rounds read while
  it had no waker stored.
\<close>

definition notes_received :: "stream_sys \<Rightarrow> sub_id \<Rightarrow> transport_note list" where
  "notes_received fl i = concat (map stu_notes (sy_got fl i))"

definition pending :: "stream_sys \<Rightarrow> sub_id \<Rightarrow> transport_note list" where
  "pending fl i = (case queue fl i of None \<Rightarrow> [] | Some q \<Rightarrow> concat (map fst q))"

definition missed :: "stream_sys \<Rightarrow> sub_id \<Rightarrow> transport_note list" where
  "missed fl i = concat (map fst (sy_missed fl i))"

definition in_order :: "note_row list \<Rightarrow> u32 option \<Rightarrow> note_row list \<Rightarrow> bool" where
  "in_order sent tag R \<longleftrightarrow> sorted_wrt (<) (map row_key R) \<and> set R \<subseteq> set sent
     \<and> (\<forall>r \<in> set R. \<exists>t. tag = Some t \<and> has_tag [t] r)"

definition tag_complete :: "notes_table \<Rightarrow> stream_sys \<Rightarrow> sub_id \<Rightarrow> u32 \<Rightarrow> note_row list \<Rightarrow> bool" where
  "tag_complete table fl i t R \<longleftrightarrow>
     (\<exists>c M. tag_cursor (sys_manager fl) t = Some c \<and> missed fl i = map row_transport M
        \<and> uint (sy_from fl i) \<le> uint c
        \<and> (\<forall>r \<in> set R. uint (sy_from fl i) < row_key r \<and> row_key r \<le> uint c)
        \<and> (\<forall>r \<in> set (tbl_rows table). has_tag [t] r \<longrightarrow> uint (sy_from fl i) < row_key r \<longrightarrow>
             row_key r \<le> uint c \<longrightarrow> r \<in> set R \<union> set M))"

definition live_hist :: "notes_table \<Rightarrow> stream_sys \<Rightarrow> sub_id \<Rightarrow> u32 \<Rightarrow> note_row list \<Rightarrow> bool" where
  "live_hist table fl i t R \<longleftrightarrow>
     (if subs_abs (sys_manager fl) (t, i) = None then R = [] \<and> sy_missed fl i = []
      else tag_complete table fl i t R)"

definition hist_ok :: "node_sys \<Rightarrow> sub_id \<Rightarrow> bool" where
  "hist_ok s i \<longleftrightarrow>
     (\<exists>R. notes_received (ns_flow s) i @ pending (ns_flow s) i = map row_transport R
        \<and> in_order (ns_sent s) (sy_ids (ns_flow s) i) R
        \<and> (\<forall>t. queue (ns_flow s) i \<noteq> None \<longrightarrow> sy_ids (ns_flow s) i = Some t \<longrightarrow>
             live_hist (ns_table s) (ns_flow s) i t R))
     \<and> (sy_ids (ns_flow s) i = None \<longrightarrow> sy_missed (ns_flow s) i = [])"

lemma hist_okE:
  assumes "hist_ok s i"
  obtains R where "notes_received (ns_flow s) i @ pending (ns_flow s) i = map row_transport R"
    "in_order (ns_sent s) (sy_ids (ns_flow s) i) R"
    "\<And>t. queue (ns_flow s) i \<noteq> None \<Longrightarrow> sy_ids (ns_flow s) i = Some t \<Longrightarrow> live_hist (ns_table s) (ns_flow s) i t R"
    "sy_ids (ns_flow s) i = None \<Longrightarrow> sy_missed (ns_flow s) i = []"
proof -
  obtain R where "notes_received (ns_flow s) i @ pending (ns_flow s) i = map row_transport R"
      "in_order (ns_sent s) (sy_ids (ns_flow s) i) R"
      "\<forall>t. queue (ns_flow s) i \<noteq> None \<longrightarrow> sy_ids (ns_flow s) i = Some t \<longrightarrow> live_hist (ns_table s) (ns_flow s) i t R"
      "sy_ids (ns_flow s) i = None \<longrightarrow> sy_missed (ns_flow s) i = []"
    using assms unfolding hist_ok_def by (elim conjE exE)
  then show ?thesis
    by (intro that [of R]) simp_all
qed

lemma hist_okI:
  assumes "notes_received (ns_flow s) i @ pending (ns_flow s) i = map row_transport R"
    and "in_order (ns_sent s) (sy_ids (ns_flow s) i) R"
    and "\<And>t. queue (ns_flow s) i \<noteq> None \<Longrightarrow> sy_ids (ns_flow s) i = Some t \<Longrightarrow> live_hist (ns_table s) (ns_flow s) i t R"
    and "sy_ids (ns_flow s) i = None \<Longrightarrow> sy_missed (ns_flow s) i = []"
  shows "hist_ok s i"
  using assms unfolding hist_ok_def by blast

lemma in_order_mono: "in_order sent tag R \<Longrightarrow> set sent \<subseteq> set sent' \<Longrightarrow> in_order sent' tag R"
  by (auto simp: in_order_def)

lemma in_order_take: "in_order sent tag R \<Longrightarrow> in_order sent tag (take n R)"
  by (auto simp: in_order_def sorted_wrt_map_take dest: in_set_takeD)

lemma live_hist_table:
  assumes "live_hist t0 fl i t R"
    and "\<And>r c. r \<in> set (tbl_rows t1) \<Longrightarrow> tag_cursor (sys_manager fl) t = Some c \<Longrightarrow> row_key r \<le> uint c \<Longrightarrow> r \<in> set (tbl_rows t0)"
  shows "live_hist t1 fl i t R"
proof (cases "subs_abs (sys_manager fl) (t, i) = None")
  case True
  then show ?thesis
    using assms(1) by (simp add: live_hist_def)
next
  case False
  then obtain c M where c: "tag_cursor (sys_manager fl) t = Some c" "missed fl i = map row_transport M"
      "uint (sy_from fl i) \<le> uint c \<and> (\<forall>r \<in> set R. uint (sy_from fl i) < row_key r \<and> row_key r \<le> uint c)"
      "\<forall>r \<in> set (tbl_rows t0). has_tag [t] r \<longrightarrow> uint (sy_from fl i) < row_key r \<longrightarrow>
         row_key r \<le> uint c \<longrightarrow> r \<in> set R \<union> set M"
    using assms(1) unfolding live_hist_def tag_complete_def by auto
  have "\<forall>r \<in> set (tbl_rows t1). has_tag [t] r \<longrightarrow> uint (sy_from fl i) < row_key r \<longrightarrow>
      row_key r \<le> uint c \<longrightarrow> r \<in> set R \<union> set M"
    using c(4) assms(2) [OF _ c(1)] by blast
  then show ?thesis
    using False c(1-3) unfolding live_hist_def tag_complete_def by auto
qed

text \<open>New rows and deletions change nothing for what was read before.\<close>

lemma hist_put_table:
  assumes h: "table_hist_ok x cfg s" and c: "cursors_ok s" and i: "hist_ok s i"
    and st: "db_step x cfg (ns_table s) t"
  shows "hist_ok (put_table t s) i"
proof -
  obtain R where R: "notes_received (ns_flow s) i @ pending (ns_flow s) i = map row_transport R"
    "in_order (ns_sent s) (sy_ids (ns_flow s) i) R"
    "\<And>t. queue (ns_flow s) i \<noteq> None \<Longrightarrow> sy_ids (ns_flow s) i = Some t \<Longrightarrow> live_hist (ns_table s) (ns_flow s) i t R"
    "sy_ids (ns_flow s) i = None \<Longrightarrow> sy_missed (ns_flow s) i = []"
    using hist_okE [OF i] by metis
  have ok: "db_ok x (ns_table s)"
    using h by (simp add: table_hist_ok_def)
  have old: "r \<in> set (tbl_rows (ns_table s))"
    if "r \<in> set (tbl_rows t)" "tag_cursor (sys_manager (ns_flow s)) u = Some c" "row_key r \<le> uint c" for r u c
  proof (rule db_step_old [OF ok st that(1)])
    show "row_key r \<le> sint (tbl_seq (ns_table s))"
      using that(2,3) \<open>cursors_ok s\<close> unfolding cursors_ok_def by (meson order_trans)
  qed
  show ?thesis
  proof (rule hist_okI [of _ _ R])
    show "in_order (ns_sent (put_table t s)) (sy_ids (ns_flow (put_table t s)) i) R"
      using R(2) by (auto intro: in_order_mono)
    show "live_hist (ns_table (put_table t s)) (ns_flow (put_table t s)) i u R"
      if "queue (ns_flow (put_table t s)) i \<noteq> None" "sy_ids (ns_flow (put_table t s)) i = Some u" for u
      using that live_hist_table [OF R(3) old] by simp
  qed (use R(1,4) in simp_all)
qed

text \<open>A step of the streaming side, seen from one subscription.\<close>

lemma live_hist_cong:
  assumes "sys_manager fl = sys_manager fl'" "sy_missed fl i = sy_missed fl' i" "sy_from fl i = sy_from fl' i"
  shows "live_hist table fl i t R = live_hist table fl' i t R"
  unfolding live_hist_def tag_complete_def missed_def assms by (rule refl)

lemma unknown_not_subscribed:
  assumes "flow_ok s" and "sy_ids s i = None"
  shows "subs_abs (sys_manager s) (u, i) = None"
proof (rule ccontr)
  assume "subs_abs (sys_manager s) (u, i) \<noteq> None"
  then obtain e where "subs_abs (sys_manager s) (u, i) = Some e"
    by blast
  then have "sy_ids s (snd (u, i)) = Some (fst (u, i))"
    using assms(1) unfolding flow_ok_def subs_ok_def by blast
  then show False
    using assms(2) by simp
qed

lemma hist_same:
  assumes "hist_ok s i"
    and "sy_got fl i = sy_got (ns_flow s) i" "queue fl i = queue (ns_flow s) i"
    and "sy_ids fl i = sy_ids (ns_flow s) i" "sy_missed fl i = sy_missed (ns_flow s) i"
    and "sy_from fl i = sy_from (ns_flow s) i" "sys_manager fl = sys_manager (ns_flow s)"
  shows "hist_ok (put_flow fl s) i"
  using assms(1) live_hist_cong [OF assms(7,5,6)]
  by (simp add: hist_ok_def notes_received_def pending_def assms(2-5))

text \<open>A poll moves the first page of the channel to the stream.\<close>

lemma poll_received:
  assumes "queue s i = Some q" and "poll_recv q = (recv, q')"
    and "sub_poll_next sub recv f w ctl = (r, ctl')"
  shows "notes_received (deliver i r s') i @ concat (map fst q') = concat (map stu_notes (sy_got s' i)) @ concat (map fst q)"
  using assms(2,3)
  by (cases q) (auto simp: sub_poll_next_def notes_received_def deliver_def Let_def case_prod_beta split: if_splits)

lemma hist_poll:
  assumes "hist_ok s i" and "queue (ns_flow s) i = Some q" and "poll_recv q = (recv, q')"
    and "sub_poll_next sub recv f w ctl = (r, ctl')"
  shows "hist_ok (put_flow (deliver i r (set_chan i (Some q') ((ns_flow s)\<lparr>sy_ctl := ctl'\<rparr>))) s) i"
proof -
  let ?fl = "deliver i r (set_chan i (Some q') ((ns_flow s)\<lparr>sy_ctl := ctl'\<rparr>))"
  obtain R where R: "notes_received (ns_flow s) i @ pending (ns_flow s) i = map row_transport R"
    "in_order (ns_sent s) (sy_ids (ns_flow s) i) R"
    "\<And>t. queue (ns_flow s) i \<noteq> None \<Longrightarrow> sy_ids (ns_flow s) i = Some t \<Longrightarrow> live_hist (ns_table s) (ns_flow s) i t R"
    "sy_ids (ns_flow s) i = None \<Longrightarrow> sy_missed (ns_flow s) i = []"
    using hist_okE [OF assms(1)] by metis
  show ?thesis
  proof (rule hist_okI [of _ _ R])
    show "notes_received (ns_flow (put_flow ?fl s)) i @ pending (ns_flow (put_flow ?fl s)) i = map row_transport R"
      using poll_received [OF assms(2-4), of "set_chan i (Some q') ((ns_flow s)\<lparr>sy_ctl := ctl'\<rparr>)"] R(1) assms(2)
      by (simp add: pending_def notes_received_def)
    show "in_order (ns_sent (put_flow ?fl s)) (sy_ids (ns_flow (put_flow ?fl s)) i) R"
      using R(2) by simp
    show "live_hist (ns_table (put_flow ?fl s)) (ns_flow (put_flow ?fl s)) i t R"
      if "sy_ids (ns_flow (put_flow ?fl s)) i = Some t" for t
      using R(3) [of t] that assms(2) live_hist_cong [of ?fl "ns_flow s" i] by simp
  qed (use R(4) in simp)
qed

lemma hist_drop:
  assumes "hist_ok s i"
  shows "hist_ok (put_flow (set_chan i None ((ns_flow s)\<lparr>sy_ctl := ctl\<rparr>)) s) i"
proof -
  obtain R where R: "notes_received (ns_flow s) i @ pending (ns_flow s) i = map row_transport R"
    "in_order (ns_sent s) (sy_ids (ns_flow s) i) R"
    "sy_ids (ns_flow s) i = None \<Longrightarrow> sy_missed (ns_flow s) i = []"
    using hist_okE [OF assms] by metis
  have "notes_received (ns_flow s) i = map row_transport (take (length (notes_received (ns_flow s) i)) R)"
    using R(1) by (metis append_eq_conv_conj take_map)
  then show ?thesis
    using in_order_take [OF R(2)] R(3) by (intro hist_okI) (auto simp: pending_def notes_received_def)
qed

lemma hist_subscribe:
  assumes "hist_ok s i" and "sy_ids (ns_flow s) i = None" and "flow_ok (ns_flow s)" and "q = None \<or> q = Some []"
  shows "hist_ok (put_flow (set_chan i q ((ns_flow s)\<lparr>sy_ctl := ctl, sy_ids := (sy_ids (ns_flow s))(i \<mapsto> t)\<rparr>)) s) i"
proof -
  obtain R where R: "notes_received (ns_flow s) i @ pending (ns_flow s) i = map row_transport R"
    "in_order (ns_sent s) (sy_ids (ns_flow s) i) R" "sy_missed (ns_flow s) i = []"
    using hist_okE [OF assms(1)] assms(2) by metis
  have "R = []"
    using R(2) assms(2) by (cases R) (auto simp: in_order_def)
  then have n: "notes_received (ns_flow s) i = []" "R = []"
    using R(1) by simp_all
  have "subs_abs (sys_manager (ns_flow s)) (u, i) = None" for u
    by (rule unknown_not_subscribed [OF assms(3,2)])
  with assms(4) n R(3) show ?thesis
    by (intro hist_okI [of _ _ "[]"]) (auto simp: notes_received_def pending_def in_order_def live_hist_def)
qed

text \<open>A control message leaves what was read alone, and starts the history of a new subscription.\<close>

lemma received_chans:
  "streamer_step x e (Received msg) s = (r, st) \<Longrightarrow> ss_chans st = ss_chans s"
  by (cases msg) (auto simp: case_prod_beta)

lemma received_subs_other:
  assumes "flow_ok s" and "sy_ctl s = msg # ctl" and "queue s i \<noteq> None"
    and "\<And>sub. msg = AddSub sub \<Longrightarrow> sf_id sub \<noteq> i"
  shows "subs_spec now msg subs (t, i) = subs (t, i)" "from_cursor msg m from i = from i"
proof -
  have "RemoveSub i u why \<noteq> msg" for u why
    using assms(1-3) unfolding flow_ok_def live_ok_def by (metis list.set_intros(1))
  then show "subs_spec now msg subs (t, i) = subs (t, i)" "from_cursor msg m from i = from i"
    using assms(4) by (cases msg; fastforce)+
qed

lemma live_hist_control:
  assumes f: "flow_ok fl" and o: "once_ok fl" and ctl: "sy_ctl fl = msg # ctl"
    and st: "streamer_step x e (Received msg) (sy_streamer fl) = (r, st)"
    and q: "queue fl i \<noteq> None" and i: "sy_ids fl i = Some t" and l: "live_hist table fl i t R"
  shows "live_hist table (fl\<lparr>sy_streamer := st, sy_ctl := ctl, sy_armed := False,
    sy_from := from_cursor msg (ss_manager st) (sy_from fl)\<rparr>) i t R" (is "live_hist table ?fl i t R")
proof -
  have a: "subs_abs (ss_manager st) = subs_spec (env_now e) msg (subs_abs (sys_manager fl))"
    using streamer_step_subs [of x e msg "sy_streamer fl"] st by simp
  show ?thesis
  proof (cases "\<exists>sub. msg = AddSub sub \<and> sf_id sub = i")
    case True
    then obtain sub where sub: "msg = AddSub sub" "sf_id sub = i"
      by blast
    then have t: "sf_tag sub = t"
      using f ctl i by (simp add: flow_ok_def)
    then have s: "subs_abs (ss_manager st) (t, i) \<noteq> None"
      using a sub by simp
    then obtain c where c: "tag_cursor (ss_manager st) t = Some c"
      using tag_cursor_subscribed by blast
    then have from': "sy_from ?fl i = c"
      using sub t by simp
    have "subs_abs (sys_manager fl) (t, i) = None"
      using spec [OF o [unfolded once_ok_def], of i] ctl sub by (auto simp: known_def split: if_splits)
    then have "R = []" "missed ?fl i = map row_transport []"
      using l by (simp_all add: live_hist_def missed_def)
    then show ?thesis
      using s c from' by (simp add: live_hist_def tag_complete_def del: not_None_eq)
  next
    case False
    have o: "subs_abs (ss_manager st) (t, i) = subs_abs (sys_manager fl) (t, i)" "sy_from ?fl i = sy_from fl i"
      using received_subs_other [OF f ctl q] False unfolding a by simp_all
    show ?thesis
    proof (cases "subs_abs (sys_manager fl) (t, i) = None")
      case True
      then show ?thesis
        using l o by (simp add: live_hist_def)
    next
      case s: False
      then have "subs_abs (ss_manager st) (t, i) \<noteq> None"
        unfolding o(1) .
      then obtain c where c: "tag_cursor (ss_manager st) t = Some c"
        using tag_cursor_subscribed by blast
      have "tag_cursor (sys_manager fl) t = Some c"
        using received_cursor [OF _ st c] tag_cursor_subscribed [OF s] by blast
      then show ?thesis
        using l s o c unfolding live_hist_def tag_complete_def by (auto simp: missed_def)
    qed
  qed
qed

lemma hist_control:
  assumes "hist_ok s i" and "flow_ok (ns_flow s)" and "once_ok (ns_flow s)" and "sy_ctl (ns_flow s) = msg # ctl"
    and st: "streamer_step x e (Received msg) (sy_streamer (ns_flow s)) = (r, st)"
  shows "hist_ok (put_flow ((ns_flow s)\<lparr>sy_streamer := st, sy_ctl := ctl, sy_armed := False,
    sy_from := from_cursor msg (ss_manager st) (sy_from (ns_flow s))\<rparr>) s) i"
proof -
  obtain R where R: "notes_received (ns_flow s) i @ pending (ns_flow s) i = map row_transport R"
    "in_order (ns_sent s) (sy_ids (ns_flow s) i) R"
    "\<And>t. queue (ns_flow s) i \<noteq> None \<Longrightarrow> sy_ids (ns_flow s) i = Some t \<Longrightarrow> live_hist (ns_table s) (ns_flow s) i t R"
    "sy_ids (ns_flow s) i = None \<Longrightarrow> sy_missed (ns_flow s) i = []"
    using hist_okE [OF assms(1)] by metis
  note c = received_chans [OF st]
  show ?thesis
    using live_hist_control [OF assms(2-4) st _ _ R(3)] R(1,2,4)
    by (intro hist_okI [of _ _ R]) (simp_all add: c notes_received_def pending_def)
qed

text \<open>
  A round extends what a live subscription has by the page of its tag, on one side or the other:
  the rows it adds are above the old cursor and complete up to the new one.
\<close>

lemma round_tag:
  assumes h: "table_hist_ok x cfg s" and cu: "cursors_ok s" and f: "flow_ok (ns_flow s)" and x: "codec_ok x"
    and lim: "sint (tbl_seq (ns_table s)) \<le> LEGACY"
    and dbs: "\<forall>t. env_dbs e t \<in> set (ns_seen s)"
    and st: "streamer_step x e QueryReady (sy_streamer (ns_flow s)) = (r, st)"
    and c: "tag_cursor (sys_manager (ns_flow s)) t = Some c" "tag_cursor (ss_manager st) t = Some c'"
  shows "\<exists>P. step_notes x e QueryReady (sy_streamer (ns_flow s)) t = map row_transport P
    \<and> sorted_wrt (<) (map row_key P) \<and> uint c \<le> uint c'
    \<and> (\<forall>r \<in> set P. r \<in> set (ns_sent s) \<and> has_tag [t] r \<and> uint c < row_key r \<and> row_key r \<le> uint c')
    \<and> (\<forall>r \<in> set (tbl_rows (ns_table s)). has_tag [t] r \<longrightarrow> uint c < row_key r \<longrightarrow> row_key r \<le> uint c' \<longrightarrow> r \<in> set P)"
proof -
  let ?P = "pull_page [t] (env_dbs e t) (uint c)"
  have m: "mg_ok (ss_manager (sy_streamer (ns_flow s)))"
    using f by (simp add: flow_ok_def)
  have le: "uint c \<le> LEGACY"
    using cu c(1) lim unfolding cursors_ok_def by (meson order_trans)
  note seen = seen_round [OF h dbs, of t]
  show ?thesis
    using streamer_step_cursor [OF m seen_round(1) [OF h dbs] x c(1) st c(2)]
  proof (elim disjE conjE)
    assume "step_notes x e QueryReady (sy_streamer (ns_flow s)) t = []" "c' = c"
    then show ?thesis
      by (intro exI [of _ "[]"]) simp
  next
    assume p: "step_notes x e QueryReady (sy_streamer (ns_flow s)) t = map row_transport ?P"
      "uint c' = page_end (uint c) ?P"
    note pp = pull.page_props [where tags = "[t]", OF seen(1) le]
    have "r \<in> set ?P"
      if r: "r \<in> set (tbl_rows (ns_table s))" "has_tag [t] r" "uint c < row_key r" "row_key r \<le> uint c'" for r
    proof (rule pull.nxt_between [OF seen(1) le])
      have "uint c' = uint c \<or> uint c' \<le> sint (tbl_seq (env_dbs e t))"
        using page_end_in [of "uint c" ?P] pp(2) table_okD(3) [OF db_ok_table [OF seen(1)]] unfolding p(2) by auto
      then have "row_key r \<le> sint (tbl_seq (env_dbs e t))"
        using r(3,4) by auto
      then show "r \<in> set (tbl_rows (env_dbs e t))"
        by (rule db_run_old [OF seen(2,1) r(1)])
      show "row_key r \<le> page_end (uint c) ?P"
        using r(4) p(2) by simp
    qed (use r in auto)
    moreover have "r \<in> set (ns_sent s)" if "r \<in> set ?P" for r
      using that pp(2) seen(3) by blast
    ultimately show ?thesis
      using p pp page_end_ge [of "uint c" ?P] page_end_ge_row [of _ ?P "uint c"] by (intro exI [of _ ?P]) auto
  qed
qed

lemma in_order_append:
  assumes "in_order sent (Some t) R" and "\<forall>r \<in> set R. row_key r \<le> c" and "sorted_wrt (<) (map row_key P)"
    and "\<forall>r \<in> set P. r \<in> set sent \<and> has_tag [t] r \<and> c < row_key r"
  shows "in_order sent (Some t) (R @ P)"
  using assms by (fastforce simp: in_order_def sorted_wrt_append)

abbreviation after_round ::
  "('h, 't) extern \<Rightarrow> chans streamer_env \<Rightarrow> chans streamer_state \<Rightarrow> stream_sys \<Rightarrow> stream_sys" where
  "after_round x e st fl \<equiv> fl\<lparr>sy_streamer := st, sy_armed := False,
     sy_missed := (\<lambda>i. sy_missed fl i @ round_missed x e (sy_streamer fl) i)\<rparr>"

text \<open>The page of a round joins either what the subscription has or what it missed.\<close>

lemma tag_complete_round:
  assumes c: "tag_cursor (sys_manager fl) t = Some c" and c': "tag_cursor (ss_manager st) t = Some c'"
    and l: "tag_complete table fl i t R"
    and ms: "concat (map fst (round_missed x e (sy_streamer fl) i)) = (if woken then [] else map row_transport P)"
    and le: "uint c \<le> uint c'" and P: "\<forall>r \<in> set P. row_key r \<le> uint c'"
    and P': "\<forall>r \<in> set P. uint c < row_key r"
    and all: "\<forall>r \<in> set (tbl_rows table). has_tag [t] r \<longrightarrow> uint c < row_key r \<longrightarrow> row_key r \<le> uint c' \<longrightarrow> r \<in> set P"
  shows "tag_complete table (after_round x e st fl) i t (R @ (if woken then P else []))"
proof -
  obtain M where M: "missed fl i = map row_transport M"
      "uint (sy_from fl i) \<le> uint c \<and> (\<forall>r \<in> set R. uint (sy_from fl i) < row_key r \<and> row_key r \<le> uint c)"
      "\<forall>r \<in> set (tbl_rows table). has_tag [t] r \<longrightarrow> uint (sy_from fl i) < row_key r \<longrightarrow>
         row_key r \<le> uint c \<longrightarrow> r \<in> set R \<union> set M"
    using l c unfolding tag_complete_def by auto
  let ?fl = "after_round x e st fl"
  let ?R = "R @ (if woken then P else [])" and ?M = "M @ (if woken then [] else P)"
  have "missed ?fl i = map row_transport ?M"
    using M(1) ms by (simp add: missed_def)
  moreover have "uint (sy_from ?fl i) \<le> uint c' \<and> (\<forall>r \<in> set ?R. uint (sy_from ?fl i) < row_key r \<and> row_key r \<le> uint c')"
    using M(2) le P P' by fastforce
  moreover have "r \<in> set ?R \<union> set ?M"
    if r: "r \<in> set (tbl_rows table)" "has_tag [t] r" "uint (sy_from ?fl i) < row_key r" "row_key r \<le> uint c'" for r
    using bspec [OF M(3) r(1)] bspec [OF all r(1)] r by (cases "row_key r \<le> uint c") auto
  ultimately show ?thesis
    using c' unfolding tag_complete_def by (intro exI [of _ c'] exI [of _ ?M]) auto
qed

lemma in_order_round:
  assumes "in_order sent (Some t) R" and "tag_complete table fl i t R" and "tag_cursor (sys_manager fl) t = Some c"
    and "sorted_wrt (<) (map row_key P)" and "\<forall>r \<in> set P. r \<in> set sent \<and> has_tag [t] r \<and> uint c < row_key r"
  shows "in_order sent (Some t) (R @ (if woken then P else []))"
proof (cases woken)
  case True
  have "\<forall>r \<in> set R. row_key r \<le> uint c"
    using assms(2,3) unfolding tag_complete_def by auto
  from in_order_append [OF assms(1) this assms(4,5)] True show ?thesis by simp
qed (use assms(1) in simp)

lemma hist_round_known:
  assumes h: "table_hist_ok x cfg s" and cu: "cursors_ok s" and f: "flow_ok (ns_flow s)" and x: "codec_ok x"
    and lim: "sint (tbl_seq (ns_table s)) \<le> LEGACY"
    and armed: "sy_armed (ns_flow s)" and dbs: "\<forall>t. env_dbs e t \<in> set (ns_seen s)" and tx: "env_tx e = chan_send"
    and st: "streamer_step x e QueryReady (sy_streamer (ns_flow s)) = (r, st)"
    and R: "notes_received (ns_flow s) i @ pending (ns_flow s) i = map row_transport R"
      "in_order (ns_sent s) (sy_ids (ns_flow s) i) R"
    and Some: "queue (ns_flow s) i = Some q" and t: "sy_ids (ns_flow s) i = Some t"
    and l: "live_hist (ns_table s) (ns_flow s) i t R" and known: "subs_abs (sys_manager (ns_flow s)) (t, i) \<noteq> None"
  shows "hist_ok (put_flow (after_round x e st (ns_flow s)) s) i" (is "hist_ok (put_flow ?fl s) i")
proof -
  let ?m = "sys_manager (ns_flow s)"
  note db = seen_round(1) [OF h dbs]
  define woken where "woken = (bt_get (mg_wakers ?m) i \<noteq> None)"
  obtain qs where qs: "queue ?fl i = Some (q @ qs)"
      "concat (map fst qs) = (if woken then step_notes x e QueryReady (sy_streamer (ns_flow s)) t else [])"
      "concat (map fst (round_missed x e (sy_streamer (ns_flow s)) i)) =
        (if woken then [] else step_notes x e QueryReady (sy_streamer (ns_flow s)) t)"
      "subs_abs (ss_manager st) (t, i) \<noteq> None"
    using round_live [OF f armed tx db x st Some t known] unfolding woken_def by auto
  have tc: "tag_complete (ns_table s) (ns_flow s) i t R"
    using l known by (simp add: live_hist_def)
  obtain c c' where c: "tag_cursor ?m t = Some c" "tag_cursor (ss_manager st) t = Some c'"
    using tag_cursor_subscribed [OF qs(4)] tag_cursor_subscribed [OF known] by blast
  obtain P where P: "step_notes x e QueryReady (sy_streamer (ns_flow s)) t = map row_transport P"
      "sorted_wrt (<) (map row_key P)" "uint c \<le> uint c'"
      "\<forall>r \<in> set P. r \<in> set (ns_sent s) \<and> has_tag [t] r \<and> uint c < row_key r \<and> row_key r \<le> uint c'"
      "\<forall>r \<in> set (tbl_rows (ns_table s)). has_tag [t] r \<longrightarrow> uint c < row_key r \<longrightarrow> row_key r \<le> uint c' \<longrightarrow> r \<in> set P"
    using round_tag [OF h cu f x lim dbs st c] by blast
  let ?R = "R @ (if woken then P else [])"
  have "tag_complete (ns_table s) ?fl i t ?R"
    by (rule tag_complete_round [OF c tc _ P(3) _ _ P(5)]) (use qs(3) P(1,4) in auto)
  moreover have "in_order (ns_sent s) (Some t) ?R"
    by (rule in_order_round [OF _ tc c(1) P(2)]) (use R(2) t P(4) in auto)
  moreover have "notes_received ?fl i @ pending ?fl i = map row_transport ?R"
    using R(1) Some qs(2) P(1) unfolding pending_def qs(1) by (simp add: notes_received_def pending_def)
  ultimately show ?thesis
    using t qs(4) by (intro hist_okI [of _ _ ?R]) (auto simp: live_hist_def)
qed

lemma hist_round:
  assumes h: "table_hist_ok x cfg s" and cu: "cursors_ok s" and f: "flow_ok (ns_flow s)" and x: "codec_ok x"
    and lim: "sint (tbl_seq (ns_table s)) \<le> LEGACY" and i: "hist_ok s i"
    and armed: "sy_armed (ns_flow s)" and dbs: "\<forall>t. env_dbs e t \<in> set (ns_seen s)" and tx: "env_tx e = chan_send"
    and st: "streamer_step x e QueryReady (sy_streamer (ns_flow s)) = (r, st)"
  shows "hist_ok (put_flow (after_round x e st (ns_flow s)) s) i" (is "hist_ok (put_flow ?fl s) i")
proof -
  let ?m = "sys_manager (ns_flow s)"
  obtain R where R: "notes_received (ns_flow s) i @ pending (ns_flow s) i = map row_transport R"
    "in_order (ns_sent s) (sy_ids (ns_flow s) i) R"
    "\<And>t. queue (ns_flow s) i \<noteq> None \<Longrightarrow> sy_ids (ns_flow s) i = Some t \<Longrightarrow> live_hist (ns_table s) (ns_flow s) i t R"
    "sy_ids (ns_flow s) i = None \<Longrightarrow> sy_missed (ns_flow s) i = []"
    using hist_okE [OF i] by metis
  note db = seen_round(1) [OF h dbs]
  have unknown: "sy_missed ?fl i = []" if "sy_ids (ns_flow s) i = None"
    using R(4) [OF that] round_missed_unknown [OF unknown_not_subscribed [OF f that]] by simp
  show ?thesis
  proof (cases "queue (ns_flow s) i")
    case None
    then have "queue ?fl i = None"
      using round_dead [OF f armed tx st, of "sub_chan i"] by simp
    then show ?thesis
      using R(1,2) None unknown by (intro hist_okI [of _ _ R]) (simp_all add: notes_received_def pending_def)
  next
    case (Some q)
    then obtain t where t: "sy_ids (ns_flow s) i = Some t"
      using live_okD [OF f, of i] by auto
    have l: "live_hist (ns_table s) (ns_flow s) i t R"
      using R(3) t Some by simp
    show ?thesis
    proof (cases "subs_abs ?m (t, i) = None")
      case True
      have "subs_ok (sy_ids (ns_flow s)) ?m"
        using f by (simp add: flow_ok_def)
      from subscribed_tag [OF this, of i t] t True have n: "subs_abs ?m (u, i) = None" for u
        by metis
      have "queue ?fl i = Some q" "subs_abs (sys_manager ?fl) (t, i) = None"
        using round_unknown [OF f armed tx db x st Some t True] by simp_all
      moreover have "round_missed x e (sy_streamer (ns_flow s)) i = []"
        by (rule round_missed_unknown [OF n])
      ultimately show ?thesis
        using R(1,2) Some l True t
        by (intro hist_okI [of _ _ R]) (simp_all add: notes_received_def pending_def live_hist_def)
    next
      case False
      show ?thesis
        by (rule hist_round_known [OF h cu f x lim armed dbs tx st R(1,2) Some t l False])
    qed
  qed
qed

lemma hist_put_flow:
  assumes h: "table_hist_ok x cfg s" and cu: "cursors_ok s" and f: "flow_ok (ns_flow s)" and o: "once_ok (ns_flow s)"
    and x: "codec_ok x" and lim: "sint (tbl_seq (ns_table s)) \<le> LEGACY" and i: "hist_ok s i"
    and st: "flow_step x (\<lambda>dbs. \<forall>t. dbs t \<in> set (ns_seen s)) (ns_flow s) fl"
  shows "hist_ok (put_flow fl s) i"
  using st
proof cases
  case (subscribe j req why r ctl)
  show ?thesis
  proof (cases "i = j")
    case True
    show ?thesis
      unfolding subscribe(1) True by (rule hist_subscribe [OF i [unfolded True] subscribe(2) f]) simp
  qed (rule hist_same [OF i]; simp add: subscribe(1))
next
  case (poll j t q recv q' w r ctl)
  show ?thesis
  proof (cases "i = j")
    case True
    show ?thesis
      unfolding poll(1) True by (rule hist_poll [OF i [unfolded True] poll(3-5)])
  qed (rule hist_same [OF i]; simp add: poll(1))
next
  case (drop j t)
  show ?thesis
  proof (cases "i = j")
    case True
    show ?thesis
      unfolding drop(1) True by (rule hist_drop [OF i [unfolded True]])
  qed (rule hist_same [OF i]; simp add: drop(1))
next
  case arm
  show ?thesis
    by (rule hist_same [OF i]) (simp_all add: arm(1))
next
  case (control msg ctl e r st)
  show ?thesis
    unfolding control(1) by (rule hist_control [OF i f o control(2,3)])
next
  case (round e r st)
  show ?thesis
    unfolding round(1) by (rule hist_round [OF h cu f x lim i round(2-5)])
qed

section \<open>Runs of the node\<close>

definition node_ok :: "('h, 't) extern \<Rightarrow> grpc_server_config \<Rightarrow> node_sys \<Rightarrow> bool" where
  "node_ok x cfg s \<longleftrightarrow> table_hist_ok x cfg s \<and> cursors_ok s \<and> flow_ok (ns_flow s) \<and> once_ok (ns_flow s)"

lemma node_started_ok:
  assumes "db_ok x t"
  shows "node_ok x cfg (node_started days tel t)" "hist_ok (node_started days tel t) i"
proof -
  show "node_ok x cfg (node_started days tel t)"
    using assms table_okD(1,3) [OF db_ok_table [OF assms]] flow_ok_init
    by (simp add: node_ok_def table_hist_ok_def cursors_ok_def node_started_def)
      (simp_all add: once_ok_init, simp add: sys_init_def manager_new_def tag_cursor_def)
  show "hist_ok (node_started days tel t) i"
    by (rule hist_okI [of _ _ "[]"])
      (simp_all add: node_started_def sys_init_def notes_received_def pending_def in_order_def)
qed

lemma node_step_table: "node_step x cfg s s' \<Longrightarrow> (db_step x cfg)\<^sup>=\<^sup>= (ns_table s) (ns_table s')"
  by (erule node_stepE) (auto intro: db_step.send maintenance_db_step)

lemma node_step_cases:
  assumes "node_step x cfg s s'"
  obtains (table) t where "s' = put_table t s" "db_step x cfg (ns_table s) t"
  | (flow) fl where "s' = put_flow fl s" "flow_step x (\<lambda>dbs. \<forall>t. dbs t \<in> set (ns_seen s)) (ns_flow s) fl"
  | (other) m where "s' = s\<lparr>ns_maint := m\<rparr>"
  using assms
proof cases
  case (send f now req tel r t' tel')
  then show ?thesis
    by (intro table [of t']) (auto intro: db_step.send)
next
  case (maintain m f now tel r pause t' tel')
  then show ?thesis
    by (intro table [of t']) (auto intro: maintenance_db_step)
next
  case (fetch f req tel r tel')
  then show ?thesis
    by (intro other [of "ns_maint s"]) simp
next
  case (count f r)
  then show ?thesis
    by (intro other [of "ns_maint s"]) simp
next
  case (maintenance_panic m f now tel)
  then show ?thesis
    by (intro other [of None]) simp
next
  case (stream fl)
  then show ?thesis
    by (intro flow [of fl]) simp_all
qed

lemma node_step_ok:
  assumes "node_ok x cfg s" and "node_step x cfg s s'" and "codec_ok x"
  shows "node_ok x cfg s'"
proof -
  have ok: "table_hist_ok x cfg s" "cursors_ok s" "flow_ok (ns_flow s)" "once_ok (ns_flow s)"
    using assms(1) by (simp_all add: node_ok_def)
  from assms(2) show ?thesis
  proof (cases rule: node_step_cases)
    case (table t)
    then show ?thesis
      using table_hist_put_table [OF ok(1) table(2)] cursors_put_table [OF ok(1,2) table(2)] ok(3,4)
      by (simp add: node_ok_def)
  next
    case (flow fl)
    then show ?thesis
      using table_hist_put_flow [OF ok(1)] cursors_put_flow [OF ok(1-3) assms(3) flow(2)] flow_step_ok [OF ok(3) flow(2)]
        flow_step_once [OF flow(2) ok(3,4)]
      by (simp add: node_ok_def)
  next
    case (other m)
    then show ?thesis
      using ok by (simp add: node_ok_def table_hist_ok_def cursors_ok_def)
  qed
qed

lemma node_step_hist:
  assumes "node_ok x cfg s" and "node_step x cfg s s'" and "codec_ok x"
    and "sint (tbl_seq (ns_table s)) \<le> LEGACY" and "hist_ok s i"
  shows "hist_ok s' i"
proof -
  have ok: "table_hist_ok x cfg s" "cursors_ok s" "flow_ok (ns_flow s)" "once_ok (ns_flow s)"
    using assms(1) by (simp_all add: node_ok_def)
  from assms(2) show ?thesis
  proof (cases rule: node_step_cases)
    case (table t)
    show ?thesis
      unfolding table(1) by (rule hist_put_table [OF ok(1,2) assms(5) table(2)])
  next
    case (flow fl)
    show ?thesis
      unfolding flow(1) by (rule hist_put_flow [OF ok assms(3-5) flow(2)])
  next
    case (other m)
    then show ?thesis
      using assms(5) by (simp add: hist_ok_def)
  qed
qed

lemma node_run_ok: "(node_step x cfg)\<^sup>*\<^sup>* s s' \<Longrightarrow> node_ok x cfg s \<Longrightarrow> codec_ok x \<Longrightarrow> node_ok x cfg s'"
  by (induction rule: rtranclp_induct) (auto intro: node_step_ok)

lemma node_step_seq:
  assumes "node_ok x cfg s" and "node_step x cfg s s'"
  shows "sint (tbl_seq (ns_table s)) \<le> sint (tbl_seq (ns_table s'))"
  using node_step_table [OF assms(2)] db_step_high assms(1) unfolding node_ok_def table_hist_ok_def by auto

lemma node_run_hist:
  assumes "(node_step x cfg)\<^sup>*\<^sup>* s s'" and "node_ok x cfg s" "codec_ok x" "hist_ok s i"
    and "sint (tbl_seq (ns_table s')) \<le> LEGACY"
  shows "hist_ok s' i"
  using assms(1,5)
proof (induction rule: rtranclp_induct)
  case base
  show ?case by (rule assms(4))
next
  case (step u v)
  have ok: "node_ok x cfg u"
    by (rule node_run_ok [OF step.hyps(1) assms(2,3)])
  have le: "sint (tbl_seq (ns_table u)) \<le> LEGACY"
    using node_step_seq [OF ok step.hyps(2)] step.prems by simp
  show ?case
    by (rule node_step_hist [OF ok step.hyps(2) assms(3) le step.IH [OF le]])
qed

text \<open>Every state reached from the start.\<close>

lemma reachable_ok:
  assumes "db_ok x t0" and "codec_ok x" and "(node_step x cfg)\<^sup>*\<^sup>* (node_started days tel t0) s"
  shows "node_ok x cfg s" "sint (tbl_seq (ns_table s)) \<le> LEGACY \<Longrightarrow> hist_ok s i" "db_ok x (ns_table s)"
proof -
  show ok: "node_ok x cfg s"
    by (rule node_run_ok [OF assms(3) node_started_ok(1) [OF assms(1)] assms(2)])
  show "sint (tbl_seq (ns_table s)) \<le> LEGACY \<Longrightarrow> hist_ok s i"
    by (rule node_run_hist [OF assms(3) node_started_ok(1) [OF assms(1)] assms(2) node_started_ok(2) [OF assms(1)]])
  show "db_ok x (ns_table s)"
    using ok by (simp add: node_ok_def table_hist_ok_def)
qed

text \<open>What the invariant says of an open stream whose subscription the manager knows.\<close>

lemma open_stream:
  assumes "node_ok x cfg s" and "hist_ok s i" and "queue (ns_flow s) i = Some q" and "sy_ids (ns_flow s) i = Some t"
    and "subs_abs (sys_manager (ns_flow s)) (t, i) \<noteq> None"
  obtains R M cur where "concat (map stu_notes (sy_got (ns_flow s) i)) @ concat (map fst q) = map row_transport R"
    "concat (map fst (sy_missed (ns_flow s) i)) = map row_transport M" "tag_cursor (sys_manager (ns_flow s)) t = Some cur"
    "uint (sy_from (ns_flow s) i) \<le> sint (tbl_seq (ns_table s))"
    "\<forall>r \<in> set R. uint (sy_from (ns_flow s) i) < row_key r"
    "\<And>r. r \<in> set (tbl_rows (ns_table s)) \<Longrightarrow> has_tag [t] r \<Longrightarrow> uint (sy_from (ns_flow s) i) < row_key r \<Longrightarrow>
       row_key r \<le> uint cur \<Longrightarrow> r \<in> set R \<or> r \<in> set M"
proof -
  obtain R where R: "notes_received (ns_flow s) i @ pending (ns_flow s) i = map row_transport R"
      "live_hist (ns_table s) (ns_flow s) i t R"
    using hist_okE [OF assms(2)] assms(3,4) by (metis option.distinct(1))
  then have "tag_complete (ns_table s) (ns_flow s) i t R"
    using assms(5) by (simp add: live_hist_def)
  then obtain cur M where c: "tag_cursor (sys_manager (ns_flow s)) t = Some cur" "missed (ns_flow s) i = map row_transport M"
      "uint (sy_from (ns_flow s) i) \<le> uint cur" "\<forall>r \<in> set R. uint (sy_from (ns_flow s) i) < row_key r"
      "\<forall>r \<in> set (tbl_rows (ns_table s)). has_tag [t] r \<longrightarrow> uint (sy_from (ns_flow s) i) < row_key r \<longrightarrow>
         row_key r \<le> uint cur \<longrightarrow> r \<in> set R \<union> set M"
    unfolding tag_complete_def by blast
  moreover have "uint cur \<le> sint (tbl_seq (ns_table s))"
    using assms(1) c(1) by (simp add: node_ok_def cursors_ok_def)
  ultimately show ?thesis
    using that [of R M cur] R(1) assms(3) by (auto simp: notes_received_def pending_def missed_def)
qed

end
