(* ===== verification/NodeProps.thy ===== *)
theory NodeProps
  imports NodeHistory
begin

text \<open>
  The properties of the whole node, and a run of it they are applied to.
\<close>

section \<open>A run\<close>

text \<open>
  A client sends the note of \<open>req1\<close>; another subscribes to its tag, its stream is polled, the
  streaming task reads the tag, and the stream is polled again.
\<close>

definition demo_sub :: subface where
  "demo_sub = \<lparr>sf_id = 9, sf_tag = 3, sf_tx = sub_chan 9\<rparr>"

definition demo_flow ::
  "manager \<Rightarrow> sub_log list \<Rightarrow> streamer_message list \<Rightarrow> bool \<Rightarrow> stream_sys" where
  "demo_flow m l ctl armed =
     \<lparr>sy_streamer = \<lparr>ss_manager = m, ss_chans = (\<lambda>_. None)(sub_chan 9 := Some []), ss_woken = [],
                    ss_log = l, ss_tel = tel0\<rparr>,
      sy_ctl = ctl, sy_ids = [9 \<mapsto> 3], sy_armed = armed, sy_got = (\<lambda>_. []), sy_missed = (\<lambda>_. []),
      sy_from = (\<lambda>_. 0)\<rparr>"

definition demo_manager :: "(sub_id, waker) btree \<Rightarrow> u64 \<Rightarrow> manager" where
  "demo_manager w c = \<lparr>mg_tags = [(3, \<lparr>td_cursor = c, td_subs = [(9, \<lparr>se_tx = sub_chan 9, se_created_at = 5\<rparr>)]\<rparr>)],
                       mg_wakers = w\<rparr>"

definition demo_env :: "chans streamer_env" where
  "demo_env = \<lparr>env_faults = (\<lambda>_. no_faults), env_dbs = (\<lambda>_. table1), env_tx = chan_send, env_now = 5\<rparr>"

lemmas demo_defs = demo_sub_def demo_flow_def demo_manager_def demo_env_def

lemma demo_subscribe:
  "flow_step mini_extern P (sys_init tel0) (demo_flow manager_new [] [AddSub demo_sub] False)"
proof -
  have "demo_flow manager_new [] [AddSub demo_sub] False = set_chan 9 (if is_ok (Ok \<lparr>sub_sid = 9, sub_tag = 3\<rparr> :: (sub, status) result) then Some [] else None)
      ((sys_init tel0)\<lparr>sy_ctl := [AddSub demo_sub],
        sy_ids := (sy_ids (sys_init tel0))(9 \<mapsto> str_tag \<lparr>str_tag = 3, str_cursor = 0\<rparr>)\<rparr>)"
    by (simp add: demo_defs sys_init_def set_chan_def)
  moreover have "flow_step mini_extern P (sys_init tel0) \<dots>"
    by (rule flow_step.subscribe [where why = "''''"])
      (simp_all add: sys_init_def stream_notes_def bounded_send_def CONTROL_CAPACITY_def demo_sub_def)
  ultimately show ?thesis
    by simp
qed

lemma demo_added:
  "flow_step mini_extern P (demo_flow manager_new [] [AddSub demo_sub] False)
     (demo_flow (demo_manager [] 0) [SubscriptionAdded 9 1] [] False)"
proof -
  let ?s = "demo_flow manager_new [] [AddSub demo_sub] False"
  let ?t = "demo_flow (demo_manager [] 0) [SubscriptionAdded 9 1] [] False"
  have "streamer_step mini_extern demo_env (Received (AddSub demo_sub)) (sy_streamer ?s) = (Ok True, sy_streamer ?t)"
    by (simp add: demo_defs add_sub_def manager_new_def tag_data_new_def bt_get_def active_subs_def Let_def)
  from flow_step.control [OF _ this, of "[]"] show ?thesis
    by (simp add: demo_defs tag_cursor_def bt_get_def fun_upd_idem)
qed

lemma demo_polled:
  "flow_step mini_extern P (demo_flow (demo_manager [] 0) [SubscriptionAdded 9 1] [] False)
     (demo_flow (demo_manager [] 0) [SubscriptionAdded 9 1] [WakerMsg 9 90] False)"
proof -
  let ?s = "demo_flow (demo_manager [] 0) [SubscriptionAdded 9 1] [] False"
  have "sub_poll_next \<lparr>sub_sid = 9, sub_tag = 3\<rparr> Pending (bounded_send CONTROL_CAPACITY) 90 (sy_ctl ?s) =
      (Pending, [WakerMsg 9 90])"
    by (simp add: demo_flow_def sub_poll_next_def bounded_send_def CONTROL_CAPACITY_def)
  from flow_step.poll [where q = "[]" and q' = "[]" and P = P, OF _ _ _ this] show ?thesis
    by (simp add: demo_flow_def deliver_def set_chan_def)
qed

lemma demo_waiting:
  "flow_step mini_extern P (demo_flow (demo_manager [] 0) [SubscriptionAdded 9 1] [WakerMsg 9 90] False)
     (demo_flow (demo_manager [(9, 90)] 0) [SubscriptionAdded 9 1] [] False)"
proof -
  let ?s = "demo_flow (demo_manager [] 0) [SubscriptionAdded 9 1] [WakerMsg 9 90] False"
  let ?t = "demo_flow (demo_manager [(9, 90)] 0) [SubscriptionAdded 9 1] [] False"
  have "streamer_step mini_extern demo_env (Received (WakerMsg 9 90)) (sy_streamer ?s) = (Ok True, sy_streamer ?t)"
    by (simp add: demo_defs update_waker_def)
  from flow_step.control [OF _ this, of "[]"] show ?thesis
    by (simp add: demo_flow_def)
qed

lemma demo_armed:
  "flow_step mini_extern P (demo_flow (demo_manager [(9, 90)] 0) [SubscriptionAdded 9 1] [] False)
     (demo_flow (demo_manager [(9, 90)] 0) [SubscriptionAdded 9 1] [] True)"
  using flow_step.arm [of "demo_flow (demo_manager [(9, 90)] 0) [SubscriptionAdded 9 1] [] False" mini_extern P]
  by (simp add: demo_flow_def)

text \<open>The round reads the note and wakes the stream; the next poll hands it over.\<close>

definition demo_page :: transport_notes_pg where
  "demo_page = ([note1], 1)"

lemma demo_round:
  assumes "P (\<lambda>_. table1)"
  shows "\<exists>fl. flow_step mini_extern P (demo_flow (demo_manager [(9, 90)] 0) [SubscriptionAdded 9 1] [] True) fl
    \<and> queue fl 9 = Some [demo_page] \<and> sy_ids fl = [9 \<mapsto> 3] \<and> sy_ctl fl = [] \<and> sy_got fl = (\<lambda>_. [])
    \<and> sys_manager fl = demo_manager [] 1 \<and> sy_missed fl 9 = [] \<and> sy_from fl = (\<lambda>_. 0) \<and> \<not> sy_armed fl"
proof -
  let ?s = "demo_flow (demo_manager [(9, 90)] 0) [SubscriptionAdded 9 1] [] True"
  obtain tel where "streamer_step mini_extern demo_env QueryReady (sy_streamer ?s) = (Ok True,
      \<lparr>ss_manager = demo_manager [] 1, ss_chans = (\<lambda>_. None)(sub_chan 9 := Some [demo_page]), ss_woken = [90],
       ss_log = [SubscriptionAdded 9 1], ss_tel = tel\<rparr>)"
    by (simp add: handler_eval stream_eval example_rows demo_defs demo_page_def chan_send_def bounded_send_def SUB_CAPACITY_def)
  from flow_step.round [where P = P, OF _ _ _ this] assms show ?thesis
    by (intro exI conjI) (auto simp: demo_flow_def demo_env_def round_missed_def demo_manager_def bt_get_def split: result.split)
qed

lemma demo_taken:
  assumes "queue fl 9 = Some [demo_page]" and "sy_ids fl = [9 \<mapsto> 3]" and "sy_got fl = (\<lambda>_. [])"
  shows "\<exists>fl'. flow_step mini_extern P fl fl' \<and> queue fl' 9 = Some [] \<and> sy_got fl' 9 = [\<lparr>stu_notes = [note1], stu_cursor = 1\<rparr>]
    \<and> sy_ids fl' = sy_ids fl \<and> sys_manager fl' = sys_manager fl \<and> sy_missed fl' = sy_missed fl \<and> sy_from fl' = sy_from fl
    \<and> sy_ctl fl' = sy_ctl fl"
proof -
  have "sub_poll_next \<lparr>sub_sid = 9, sub_tag = 3\<rparr> (Ready (Some demo_page)) (bounded_send CONTROL_CAPACITY) 91 (sy_ctl fl) =
      (Ready (Some (Ok \<lparr>stu_notes = [note1], stu_cursor = 1\<rparr>)), sy_ctl fl)"
    by (simp add: sub_poll_next_def demo_page_def)
  from flow_step.poll [where q = "[demo_page]" and q' = "[]" and P = P and x = mini_extern, OF _ _ _ this] assms
  have "flow_step mini_extern P fl (deliver 9 (Ready (Some (Ok \<lparr>stu_notes = [note1], stu_cursor = 1\<rparr>)))
      (set_chan 9 (Some []) (fl\<lparr>sy_ctl := sy_ctl fl\<rparr>)))" (is "flow_step _ _ _ ?fl")
    by simp
  then show ?thesis
    using assms by (intro exI [of _ ?fl]) (simp add: deliver_def set_chan_def)
qed

definition demo_start :: node_sys where
  "demo_start = node_started 30 tel0 empty_table"

lemma demo_run:
  "\<exists>s. (node_step mini_extern grpc_config_default)\<^sup>*\<^sup>* demo_start s \<and> ns_table s = table1 \<and> ns_sent s = [row1]
    \<and> queue (ns_flow s) 9 = Some [] \<and> sy_got (ns_flow s) 9 = [\<lparr>stu_notes = [note1], stu_cursor = 1\<rparr>]
    \<and> sy_ids (ns_flow s) = [9 \<mapsto> 3] \<and> sys_manager (ns_flow s) = demo_manager [] 1
    \<and> sy_missed (ns_flow s) 9 = [] \<and> sy_from (ns_flow s) 9 = 0 \<and> sy_ctl (ns_flow s) = []"
proof -
  let ?step = "node_step mini_extern grpc_config_default"
  let ?s1 = "put_table table1 demo_start"
  define f where "f = (\<lambda>fl. \<lparr>ns_table = table1, ns_flow = fl, ns_maint = ns_maint demo_start, ns_sent = [row1],
      ns_seen = [table1]\<rparr>)"
  obtain tel' where "send_note mini_extern grpc_config_default no_faults 50 req1 empty_table tel0 = (Ok SendNoteResponse, table1, tel')"
    using send_req1 by blast
  then have "send_note mini_extern grpc_config_default no_faults 50 req1 (ns_table demo_start) tel0 =
      (Ok SendNoteResponse, table1, tel')"
    by (simp add: demo_start_def node_started_def)
  from node_step.send [OF this] have s1: "?step\<^sup>*\<^sup>* demo_start (f (sys_init tel0))"
    by (intro r_into_rtranclp) (simp add: f_def demo_start_def node_started_def put_table_def table1_def empty_table_def)
  have step: "?step\<^sup>*\<^sup>* s (f fl')"
    if "?step\<^sup>*\<^sup>* s (f fl)" "flow_step mini_extern (\<lambda>dbs. \<forall>t. dbs t \<in> {table1}) fl fl'" for s fl fl'
  proof -
    have "put_flow fl' (f fl) = f fl'"
      by (simp add: f_def put_flow_def)
    then show ?thesis
      using that node_step.stream [of mini_extern "f fl" fl'] by (auto simp: f_def intro: rtranclp.rtrancl_into_rtrancl)
  qed
  note run = step [OF step [OF step [OF step [OF step [OF s1 demo_subscribe] demo_added] demo_polled] demo_waiting] demo_armed]
  obtain fl where fl: "flow_step mini_extern (\<lambda>dbs. \<forall>t. dbs t \<in> {table1})
      (demo_flow (demo_manager [(9, 90)] 0) [SubscriptionAdded 9 1] [] True) fl"
      "queue fl 9 = Some [demo_page]" "sy_ids fl = [9 \<mapsto> 3]" "sy_got fl = (\<lambda>_. [])"
      "sys_manager fl = demo_manager [] 1" "sy_missed fl 9 = []" "sy_from fl = (\<lambda>_. 0)" "sy_ctl fl = []"
    using demo_round [of "\<lambda>dbs. \<forall>t. dbs t \<in> {table1}"] by auto
  obtain fl' where "flow_step mini_extern (\<lambda>dbs. \<forall>t. dbs t \<in> {table1}) fl fl'" "queue fl' 9 = Some []"
      "sy_got fl' 9 = [\<lparr>stu_notes = [note1], stu_cursor = 1\<rparr>]" "sy_ids fl' = sy_ids fl"
      "sys_manager fl' = sys_manager fl" "sy_missed fl' = sy_missed fl" "sy_from fl' = sy_from fl"
      "sy_ctl fl' = sy_ctl fl"
    using demo_taken [OF fl(2-4)] by blast
  with step [OF step [OF run fl(1)]] fl show ?thesis
    by (intro exI [of _ "f fl'"]) (simp add: f_def)
qed

section \<open>Properties\<close>

text \<open>
  C2. What a subscriber receives. Whatever other clients send, the maintenance task deletes, and
  the engine fails, and however control messages, rounds and polls interleave, the notes a stream
  has handed over are rows of its tag in the order of their \<open>seq\<close>, each at most once: a sublist of
  what was ever stored under the tag.
\<close>

theorem subscriber_receives_in_order:
  assumes "db_ok x t0" and "codec_ok x"
    and "(node_step x cfg)\<^sup>*\<^sup>* (node_started days tel t0) s" and "sint (tbl_seq (ns_table s)) \<le> LEGACY"
  shows "\<exists>R. concat (map stu_notes (sy_got (ns_flow s) i)) = map row_transport R
    \<and> sorted_wrt (\<lambda>r r'. row_key r < row_key r') R \<and> set R \<subseteq> set (ns_sent s)
    \<and> (\<forall>r \<in> set R. \<exists>t. sy_ids (ns_flow s) i = Some t \<and> has_tag [t] r)"
proof -
  obtain R where R: "notes_received (ns_flow s) i @ pending (ns_flow s) i = map row_transport R"
      "in_order (ns_sent s) (sy_ids (ns_flow s) i) R"
    using hist_okE [OF reachable_ok(2) [OF assms]] by metis
  let ?R = "take (length (notes_received (ns_flow s) i)) R"
  have "notes_received (ns_flow s) i = map row_transport ?R"
    using R(1) by (metis append_eq_conv_conj take_map)
  with in_order_take [OF R(2)] show ?thesis
    by (intro exI [of _ ?R]) (simp add: in_order_def notes_received_def sorted_wrt_map)
qed

theorem subscriber_receives_in_order_witness:
  "\<exists>s. (node_step mini_extern grpc_config_default)\<^sup>*\<^sup>* demo_start s
    \<and> concat (map stu_notes (sy_got (ns_flow s) 9)) = [note1]
    \<and> (\<exists>R. concat (map stu_notes (sy_got (ns_flow s) 9)) = map row_transport R
      \<and> sorted_wrt (\<lambda>r r'. row_key r < row_key r') R \<and> set R \<subseteq> set (ns_sent s)
      \<and> (\<forall>r \<in> set R. \<exists>t. sy_ids (ns_flow s) 9 = Some t \<and> has_tag [t] r))"
proof -
  obtain s where s: "(node_step mini_extern grpc_config_default)\<^sup>*\<^sup>* demo_start s" "ns_table s = table1"
      "sy_got (ns_flow s) 9 = [\<lparr>stu_notes = [note1], stu_cursor = 1\<rparr>]"
    using demo_run by blast
  have "sint (tbl_seq (ns_table s)) \<le> LEGACY"
    by (simp add: s(2) table1_def)
  note p = subscriber_receives_in_order [where i = 9, OF db_ok_empty mini_codec_ok s(1) [unfolded demo_start_def] this]
  show ?thesis
    by (intro exI [of _ s] conjI s(1) p) (simp add: s(3))
qed

text \<open>
  C6. What a subscriber misses. While its stream is open, every row of its tag that is still stored,
  was stored after the manager took the subscription in (above the cursor of then) and has been
  read by the streaming task (not above the tag's cursor), was handed to the stream, waits in its
  channel, or was read by a round that found no waker of it stored. If there was no such round,
  nothing is missing.
\<close>

theorem subscriber_misses_only_without_waker:
  assumes "db_ok x t0" and "codec_ok x"
    and "(node_step x cfg)\<^sup>*\<^sup>* (node_started days tel t0) s" and "sint (tbl_seq (ns_table s)) \<le> LEGACY"
    and "queue (ns_flow s) i = Some q" and "sy_ids (ns_flow s) i = Some t"
    and "subs_abs (sys_manager (ns_flow s)) (t, i) \<noteq> None"
  shows "\<exists>R M c. concat (map stu_notes (sy_got (ns_flow s) i)) @ concat (map fst q) = map row_transport R
    \<and> concat (map fst (sy_missed (ns_flow s) i)) = map row_transport M
    \<and> tag_cursor (sys_manager (ns_flow s)) t = Some c
    \<and> (\<forall>r \<in> set (tbl_rows (ns_table s)). has_tag [t] r \<longrightarrow> uint (sy_from (ns_flow s) i) < row_key r \<longrightarrow>
         row_key r \<le> uint c \<longrightarrow> r \<in> set R \<or> r \<in> set M)"
proof -
  note ok = reachable_ok [OF assms(1-3)]
  from open_stream [OF ok(1) ok(2) [OF assms(4)] assms(5-7)] show ?thesis
    by metis
qed

theorem subscriber_misses_only_without_waker_witness:
  "\<exists>s. (node_step mini_extern grpc_config_default)\<^sup>*\<^sup>* demo_start s \<and> ns_table s = table1
    \<and> (\<exists>R M c. concat (map stu_notes (sy_got (ns_flow s) 9)) @ concat (map fst ([] :: transport_notes_pg list)) = map row_transport R
      \<and> concat (map fst (sy_missed (ns_flow s) 9)) = map row_transport M
      \<and> tag_cursor (sys_manager (ns_flow s)) 3 = Some c
      \<and> (\<forall>r \<in> set (tbl_rows (ns_table s)). has_tag [3] r \<longrightarrow> uint (sy_from (ns_flow s) 9) < row_key r \<longrightarrow>
           row_key r \<le> uint c \<longrightarrow> r \<in> set R \<or> r \<in> set M))"
proof -
  obtain s where s: "(node_step mini_extern grpc_config_default)\<^sup>*\<^sup>* demo_start s" "ns_table s = table1"
      "queue (ns_flow s) 9 = Some []" "sy_ids (ns_flow s) = [9 \<mapsto> 3]" "sys_manager (ns_flow s) = demo_manager [] 1"
    using demo_run by blast
  have "sint (tbl_seq (ns_table s)) \<le> LEGACY" "sy_ids (ns_flow s) 9 = Some 3"
    "subs_abs (sys_manager (ns_flow s)) (3, 9) \<noteq> None"
    by (simp_all add: s(2,4,5) table1_def demo_manager_def subs_abs_def bt_get_def)
  note p = subscriber_misses_only_without_waker [OF db_ok_empty mini_codec_ok s(1) [unfolded demo_start_def] this(1) s(3) this(2,3)]
  show ?thesis
    by (intro exI [of _ s] conjI s(1,2) p)
qed

text \<open>
  C10. A live subscription is kept, and its channel never fills. While its stream is open, the
  manager knows the subscription or has its announcement on the way, no removal of it is logged
  for backpressure, and its channel, of capacity 32, holds at most two pages.
\<close>

theorem live_subscription_is_kept:
  assumes "(flow_step x P)\<^sup>*\<^sup>* (sys_init tel) s" and "queue s i = Some q"
  shows "length q \<le> 2 \<and> i \<notin> evicted (ss_log (sy_streamer s))
    \<and> (\<exists>t. sy_ids s i = Some t
        \<and> (subs_abs (sys_manager s) (t, i) \<noteq> None \<or> AddSub \<lparr>sf_id = i, sf_tag = t, sf_tx = sub_chan i\<rparr> \<in> set (sy_ctl s)))"
proof -
  have ok: "flow_ok s"
    by (rule flow_run_ok [OF assms(1) flow_ok_init])
  have "length q \<le> chan_room (mg_wakers (sys_manager s)) (announced (sy_ctl s)) (sy_armed s) i"
    using ok assms(2) unfolding flow_ok_def chans_ok_def by blast
  also have "\<dots> \<le> 2"
    by (simp add: chan_room_def)
  finally show ?thesis
    using ok assms(2) unfolding flow_ok_def live_ok_def by (metis option.distinct(1))
qed

theorem live_subscription_is_kept_witness:
  "\<exists>s. (flow_step mini_extern (\<lambda>_. True))\<^sup>*\<^sup>* (sys_init tel0) s \<and> queue s 9 = Some [demo_page]
    \<and> (length [demo_page] \<le> 2 \<and> 9 \<notin> evicted (ss_log (sy_streamer s))
    \<and> (\<exists>t. sy_ids s 9 = Some t
        \<and> (subs_abs (sys_manager s) (t, 9) \<noteq> None \<or> AddSub \<lparr>sf_id = 9, sf_tag = t, sf_tx = sub_chan 9\<rparr> \<in> set (sy_ctl s))))"
proof -
  obtain s where s: "flow_step mini_extern (\<lambda>_. True) (demo_flow (demo_manager [(9, 90)] 0) [SubscriptionAdded 9 1] [] True) s"
      "queue s 9 = Some [demo_page]"
    using demo_round [of "\<lambda>_. True"] by blast
  have "(flow_step mini_extern (\<lambda>_. True))\<^sup>*\<^sup>* (sys_init tel0) s"
    using demo_subscribe demo_added demo_polled demo_waiting demo_armed s(1)
    by (meson converse_rtranclp_into_rtranclp rtranclp.rtrancl_refl)
  then show ?thesis
    using live_subscription_is_kept [OF _ s(2)] s(2) by blast
qed

text \<open>
  C9. The state of a running node stays well-formed: at every moment the table is one of written
  rows with increasing keys, identifiers unrepeated, the streaming task's maps are ordered and
  hold no tag without a subscription, its cursors stay below the table's last \<open>seq\<close>, and the
  messages on the control channel are the ones handlers and streams send.
\<close>

theorem node_state_is_well_formed:
  assumes "db_ok x t0" and "codec_ok x" and "(node_step x cfg)\<^sup>*\<^sup>* (node_started days tel t0) s"
  shows "db_ok x (ns_table s) \<and> mg_ok (sys_manager (ns_flow s))
    \<and> (\<forall>t c. tag_cursor (sys_manager (ns_flow s)) t = Some c \<longrightarrow> uint c \<le> sint (tbl_seq (ns_table s)))
    \<and> list_all (msg_ok (sy_ids (ns_flow s))) (sy_ctl (ns_flow s))"
proof -
  from reachable_ok(1) [OF assms] show ?thesis
    by (simp add: node_ok_def table_hist_ok_def cursors_ok_def flow_ok_def list_all_iff)
qed

theorem node_state_is_well_formed_witness:
  "\<exists>s. (node_step mini_extern grpc_config_default)\<^sup>*\<^sup>* demo_start s \<and> ns_table s = table1
    \<and> (db_ok mini_extern (ns_table s) \<and> mg_ok (sys_manager (ns_flow s))
    \<and> (\<forall>t c. tag_cursor (sys_manager (ns_flow s)) t = Some c \<longrightarrow> uint c \<le> sint (tbl_seq (ns_table s)))
    \<and> list_all (msg_ok (sy_ids (ns_flow s))) (sy_ctl (ns_flow s)))"
proof -
  obtain s where s: "(node_step mini_extern grpc_config_default)\<^sup>*\<^sup>* demo_start s" "ns_table s = table1"
    using demo_run by blast
  note p = node_state_is_well_formed [OF db_ok_empty mini_codec_ok s(1) [unfolded demo_start_def]]
  show ?thesis
    by (intro exI [of _ s] conjI s p [THEN conjunct1] p [THEN conjunct2, THEN conjunct1]
        p [THEN conjunct2, THEN conjunct2, THEN conjunct1] p [THEN conjunct2, THEN conjunct2, THEN conjunct2])
qed

end
