(* ===== verification/ClientProtocol.thy ===== *)
theory ClientProtocol
  imports NodeProps
begin

text \<open>
  A client that combines the two ways of receiving: it keeps a stream open for one tag and brings
  itself up to date with \<open>fetch_notes\<close>, as docs/external/src/users.md describes. Which order of the
  two leaves no gap.
\<close>

section \<open>Fetching until a response is short\<close>

text \<open>
  The client repeats \<open>fetch_notes\<close> with the cursor of the last response, and stops when a response
  is empty or smaller than the batch size; meanwhile the node takes any steps.
\<close>

record sync_client =
  sc_cursor :: u64
  sc_notes :: "transport_note list"
  sc_done :: bool

definition sync_new :: "u64 \<Rightarrow> sync_client" where
  "sync_new c = \<lparr>sc_cursor = c, sc_notes = [], sc_done = False\<rparr>"

definition sync_response :: "fetch_notes_response \<Rightarrow> sync_client \<Rightarrow> sync_client" where
  "sync_response resp c =
     \<lparr>sc_cursor = fnp_cursor resp, sc_notes = sc_notes c @ fnp_notes resp,
      sc_done = (sc_done c \<or> length (fnp_notes resp) < 500)\<rparr>"

inductive sync_step ::
  "('h, 't) extern \<Rightarrow> grpc_server_config \<Rightarrow> u32 list \<Rightarrow> node_sys \<times> sync_client \<Rightarrow> node_sys \<times> sync_client \<Rightarrow> bool"
  for x cfg tags where
  node: "node_step x cfg s s' \<Longrightarrow> sync_step x cfg tags (s, c) (s', c)"
| response: "fetch_notes x f \<lparr>fnr_tags = tags, fnr_cursor = sc_cursor c\<rparr> (ns_table s) tel = (Ok resp, tel') \<Longrightarrow>
     sync_step x cfg tags (s, c) (s, sync_response resp c)"

inductive_cases sync_stepE: "sync_step x cfg tags p q"

lemma node_run_db_run: "(node_step x cfg)\<^sup>*\<^sup>* s s' \<Longrightarrow> (db_step x cfg)\<^sup>*\<^sup>* (ns_table s) (ns_table s')"
proof (induction rule: rtranclp_induct)
  case (step u v)
  from node_step_table [OF step.hyps(2)] step.IH show ?case
    by (auto intro: rtranclp.rtrancl_into_rtrancl)
qed simp

lemma sync_run_node: "(sync_step x cfg tags)\<^sup>*\<^sup>* p q \<Longrightarrow> (node_step x cfg)\<^sup>*\<^sup>* (fst p) (fst q)"
  by (induction rule: rtranclp_induct) (auto elim!: sync_stepE intro: rtranclp.rtrancl_into_rtrancl)

lemma sync_run_pull:
  assumes "(sync_step x cfg tags)\<^sup>*\<^sup>* (s, sync_new c0) q"
  shows "pull_run (db_step x cfg) x tags (ns_table s) c0 (ns_table (fst q)) (sc_cursor (snd q)) (sc_notes (snd q))"
  using assms
proof (induction rule: rtranclp_induct)
  case base
  show ?case
    by (simp add: sync_new_def pull_run.start)
next
  case (step u v)
  from step.hyps(2) show ?case
  proof cases
    case (node s s' c)
    then show ?thesis
      using step.IH node_step_table [OF node(3)] by (auto intro: pull_run.other)
  next
    case (response f c s tel resp tel')
    then show ?thesis
      using pull_run.fetch [OF _ response(3)] step.IH by (simp add: sync_response_def)
  qed
qed

text \<open>What the client holds, and how far a finished client has come.\<close>

lemma sync_run_rows:
  assumes "(sync_step x cfg tags)\<^sup>*\<^sup>* (s1, sync_new c0) (s2, c)" and "node_ok x cfg s1" "codec_ok x"
    and "uint c0 \<le> sint (tbl_seq (ns_table s1))"
  shows "\<exists>F. sc_notes c = map row_transport F
    \<and> cursor_run (db_step x cfg) (pull_page tags) page_end (ns_table s1) (uint c0) (ns_table s2) (uint (sc_cursor c)) F
    \<and> uint (sc_cursor c) \<le> sint (tbl_seq (ns_table s2))"
proof -
  have ok: "db_ok x (ns_table s1)"
    using assms(2) by (simp add: node_ok_def table_hist_ok_def)
  obtain F where F: "sc_notes c = map row_transport F"
      "cursor_run (db_step x cfg) (pull_page tags) page_end (ns_table s1) (uint c0) (ns_table s2) (uint (sc_cursor c)) F"
    using pull_run_cursor_run [OF sync_run_pull [OF assms(1)] ok assms(3), of cfg] by auto
  with pull.run_below_high [OF F(2) ok assms(4)] show ?thesis
    by (intro exI [of _ F]) simp
qed

lemma fetch_response_reached:
  assumes "db_ok x t" "codec_ok x" and "fetch_notes x f \<lparr>fnr_tags = tags, fnr_cursor = c\<rparr> t tel = (Ok resp, tel')"
    and "uint c \<le> LEGACY"
  shows "uint c \<le> uint (fnp_cursor resp)"
    "length (fnp_notes resp) < 500 \<Longrightarrow> r \<in> set (tbl_rows t) \<Longrightarrow> has_tag tags r \<Longrightarrow> row_key r \<le> uint (fnp_cursor resp)"
proof -
  note page = fetch_notes_pull_page [OF assms(1-3)]
  show "uint c \<le> uint (fnp_cursor resp)"
    unfolding page(2) by (rule page_end_ge)
  show "row_key r \<le> uint (fnp_cursor resp)"
    if "length (fnp_notes resp) < 500" "r \<in> set (tbl_rows t)" "has_tag tags r"
    using pull.short_page_done [OF assms(1,4), of tags] that by (force simp: page filter_empty_conv)
qed

lemma sync_done_reached:
  assumes "(sync_step x cfg tags)\<^sup>*\<^sup>* (s1, sync_new c0) q" and "node_ok x cfg s1" "codec_ok x"
    and "uint c0 \<le> sint (tbl_seq (ns_table s1))" and "sint (tbl_seq (ns_table (fst q))) \<le> LEGACY"
    and "sc_done (snd q)" and "r \<in> set (tbl_rows (ns_table (fst q)))" "has_tag tags r"
    and "row_key r \<le> sint (tbl_seq (ns_table s1))"
  shows "row_key r \<le> uint (sc_cursor (snd q))"
  using assms(1,5-)
proof (induction rule: rtranclp_induct)
  case base
  then show ?case
    by (simp add: sync_new_def)
next
  case (step u v)
  obtain s c where u: "u = (s, c)"
    by (cases u) blast
  note run = step.hyps(1) [unfolded u]
  have nodes: "(node_step x cfg)\<^sup>*\<^sup>* s1 s"
    using sync_run_node [OF run] by simp
  have ok: "node_ok x cfg s"
    by (rule node_run_ok [OF nodes assms(2,3)])
  then have db: "db_ok x (ns_table s)"
    by (simp add: node_ok_def table_hist_ok_def)
  have db1: "db_ok x (ns_table s1)"
    using assms(2) by (simp add: node_ok_def table_hist_ok_def)
  have old: "row_key r \<le> sint (tbl_seq (ns_table s))"
    using db_run_high [OF node_run_db_run [OF nodes] db1] step.prems(5) by simp
  from step.hyps(2) show ?case
  proof cases
    case (node s0 s' c0)
    then have v: "v = (s', c)" and st: "node_step x cfg s s'"
      using u by auto
    have "sint (tbl_seq (ns_table s)) \<le> LEGACY"
      using node_step_seq [OF ok st] step.prems(1) by (simp add: v)
    moreover have "r \<in> set (tbl_rows (ns_table s))"
      using db_run_old [OF _ db _ old] node_step_table [OF st] step.prems(3) by (auto simp: v)
    ultimately show ?thesis
      using step.IH step.prems by (simp add: u v)
  next
    case (response f c0 s0 tel resp tel')
    then have v: "v = (s, sync_response resp c)"
      and resp: "fetch_notes x f \<lparr>fnr_tags = tags, fnr_cursor = sc_cursor c\<rparr> (ns_table s) tel = (Ok resp, tel')"
      using u by auto
    have c: "uint (sc_cursor c) \<le> LEGACY"
      using sync_run_rows [OF run assms(2-4)] step.prems(1) by (auto simp: v)
    from fetch_response_reached [OF db assms(3) resp c] step.IH step.prems show ?thesis
      by (fastforce simp: u v sync_response_def)
  qed
qed

section \<open>The stream in the meantime\<close>

text \<open>Once the manager knows a subscription whose stream stays open, where its history starts is fixed.\<close>

lemma flow_step_ids:
  assumes "flow_step x P s s'" and "flow_ok s" and "sy_ids s i = Some t"
  shows "sy_ids s' i = Some t" "queue s' i \<noteq> None \<Longrightarrow> queue s i \<noteq> None"
proof -
  show "sy_ids s' i = Some t"
    using assms(1,3) by cases auto
  show "queue s i \<noteq> None" if "queue s' i \<noteq> None"
    using assms(1)
  proof cases
    case (control msg ctl e r st)
    then show ?thesis
      using that received_chans [OF control(3)] by simp
  next
    case (round e r st)
    then show ?thesis
      using that round_dead [OF assms(2) round(2,4,5), of "sub_chan i"] by simp
  qed (use that assms(3) in \<open>auto split: if_splits\<close>)
qed

lemma flow_step_known:
  assumes "flow_step x P s s'" and "flow_ok s" "once_ok s" and "subs_abs (sys_manager s) (t, i) \<noteq> None"
    and "queue s' i \<noteq> None"
    and dbs: "\<And>dbs u. P dbs \<Longrightarrow> db_ok x (dbs u)" and "codec_ok x"
  shows "subs_abs (sys_manager s') (t, i) \<noteq> None" "sy_from s' i = sy_from s i"
proof -
  have t: "sy_ids s i = Some t"
    using assms(2,4) unfolding flow_ok_def subs_ok_def by force
  have q: "queue s i \<noteq> None"
    by (rule flow_step_ids(2) [OF assms(1,2) t assms(5)])
  have "subs_abs (sys_manager s') (t, i) \<noteq> None \<and> sy_from s' i = sy_from s i"
    using assms(1)
  proof cases
    case (control msg ctl e r st)
    have "msg \<noteq> AddSub sub \<or> sf_id sub \<noteq> i" for sub
      using spec [OF assms(3) [unfolded once_ok_def], of i] control(2) assms(4) unfolding known_def
      by (auto split: if_splits)
    then have "subs_spec (env_now e) msg (subs_abs (sys_manager s)) (t, i) = subs_abs (sys_manager s) (t, i)"
      "from_cursor msg (ss_manager st) (sy_from s) i = sy_from s i"
      by (blast intro!: received_subs_other [OF assms(2) control(2) q])+
    moreover have "subs_abs (ss_manager st) = subs_spec (env_now e) msg (subs_abs (sys_manager s))"
      using streamer_step_subs [of x e msg "sy_streamer s"] control(3) by simp
    ultimately show ?thesis
      using assms(4) by (simp add: control(1))
  next
    case (round e r st)
    obtain q where "queue s i = Some q"
      using q by blast
    from round_live [OF assms(2) round(2,4) dbs [OF round(3)] assms(7) round(5) this t assms(4)]
    show ?thesis
      by (auto simp: round(1) simp del: not_None_eq)
  qed (use assms(4) in auto)
  then show "subs_abs (sys_manager s') (t, i) \<noteq> None" "sy_from s' i = sy_from s i"
    by simp_all
qed

lemma node_run_known:
  assumes "(node_step x cfg)\<^sup>*\<^sup>* s1 s2" and "node_ok x cfg s1" "codec_ok x"
    and "subs_abs (sys_manager (ns_flow s1)) (t, i) \<noteq> None" and "queue (ns_flow s2) i \<noteq> None"
  shows "queue (ns_flow s1) i \<noteq> None \<and> sy_ids (ns_flow s1) i = Some t \<and> sy_ids (ns_flow s2) i = Some t
    \<and> subs_abs (sys_manager (ns_flow s2)) (t, i) \<noteq> None \<and> sy_from (ns_flow s2) i = sy_from (ns_flow s1) i"
proof -
  have t: "sy_ids (ns_flow s1) i = Some t"
    using assms(2,4) unfolding node_ok_def flow_ok_def subs_ok_def by force
  have "sy_ids (ns_flow s2) i = Some t \<and> (queue (ns_flow s2) i \<noteq> None \<longrightarrow> queue (ns_flow s1) i \<noteq> None
    \<and> subs_abs (sys_manager (ns_flow s2)) (t, i) \<noteq> None \<and> sy_from (ns_flow s2) i = sy_from (ns_flow s1) i)"
    using assms(1)
  proof (induction rule: rtranclp_induct)
    case base
    then show ?case
      using t assms(4) by simp
  next
    case (step u v)
    have ok: "node_ok x cfg u"
      by (rule node_run_ok [OF step.hyps(1) assms(2,3)])
    then have u: "flow_ok (ns_flow u)" "once_ok (ns_flow u)"
      by (simp_all add: node_ok_def)
    from step.hyps(2) show ?case
    proof (cases rule: node_step_cases)
      case (flow fl)
      have dbs: "db_ok x (dbs w)" if "\<forall>t. dbs t \<in> set (ns_seen u)" for dbs w
        using ok that unfolding node_ok_def table_hist_ok_def by blast
      have ids: "sy_ids fl i = Some t" "queue fl i \<noteq> None \<Longrightarrow> queue (ns_flow u) i \<noteq> None"
        using flow_step_ids [OF flow(2) u(1)] step.IH by blast+
      have "subs_abs (sys_manager fl) (t, i) \<noteq> None \<and> sy_from fl i = sy_from (ns_flow u) i"
        if "subs_abs (sys_manager (ns_flow u)) (t, i) \<noteq> None" "queue fl i \<noteq> None"
        using flow_step_known [OF flow(2) u that _ assms(3)] dbs by blast
      then show ?thesis
        using step.IH ids by (simp add: flow(1))
    qed (use step.IH in simp_all)
  qed
  with t assms(5) show ?thesis
    by simp
qed

section \<open>Runs the properties are applied to\<close>

lemma sync_run_steps: "(node_step x cfg)\<^sup>*\<^sup>* s s' \<Longrightarrow> (sync_step x cfg tags)\<^sup>*\<^sup>* (s, c) (s', c)"
  by (induction rule: rtranclp_induct) (auto intro: rtranclp.rtrancl_into_rtrancl sync_step.node)

text \<open>After the run of \<open>demo_run\<close> another client fetches; and one that fetched before it subscribes.\<close>

definition demo_synced :: "u64 \<Rightarrow> transport_note list \<Rightarrow> sync_client" where
  "demo_synced c notes = \<lparr>sc_cursor = c, sc_notes = notes, sc_done = True\<rparr>"

lemma sync_first_fetch:
  assumes "fetch_notes x no_faults \<lparr>fnr_tags = tags, fnr_cursor = c0\<rparr> (ns_table s) tel = (Ok resp, tel')"
    and "sync_response resp (sync_new c0) = c"
  shows "sync_step x cfg tags (s, sync_new c0) (s, c)"
  using sync_step.response [where c = "sync_new c0"] assms by (auto simp: sync_new_def)

lemma demo_fetch_row: "ns_table s = table1 \<Longrightarrow> sync_step mini_extern cfg [3] (s, sync_new 0) (s, demo_synced 1 [note1])"
  by (rule sync_first_fetch [where tel = tel0 and resp = "\<lparr>fnp_notes = [note1], fnp_cursor = 1\<rparr>"])
    (simp_all add: handler_eval example_rows sync_response_def sync_new_def demo_synced_def)

lemma demo_fetch_empty: "sync_step mini_extern cfg [3] (demo_start, sync_new 0) (demo_start, demo_synced 0 [])"
  by (rule sync_first_fetch [where tel = tel0 and resp = "\<lparr>fnp_notes = [], fnp_cursor = 0\<rparr>"])
    (simp_all add: handler_eval empty_table_def sync_response_def sync_new_def demo_synced_def demo_start_def node_started_def)

definition late_sub :: subface where
  "late_sub = \<lparr>sf_id = 10, sf_tag = 3, sf_tx = sub_chan 10\<rparr>"

lemma demo_late:
  assumes "sy_ctl fl = []" and "sy_ids fl = [9 \<mapsto> 3]" and "sys_manager fl = demo_manager [] 1"
  shows "\<exists>fl'. (flow_step x P)\<^sup>*\<^sup>* fl fl' \<and> queue fl' 10 = Some [] \<and> sy_from fl' 10 = 1
    \<and> subs_abs (sys_manager fl') (3, 10) \<noteq> None"
proof -
  let ?fl1 = "set_chan 10 (Some []) (fl\<lparr>sy_ctl := [AddSub late_sub], sy_ids := (sy_ids fl)(10 \<mapsto> 3)\<rparr>)"
  have "stream_notes \<lparr>str_tag = 3, str_cursor = 0\<rparr> 10 (sub_chan 10) (bounded_send CONTROL_CAPACITY) [] (sy_ctl fl) =
      (Ok \<lparr>sub_sid = 10, sub_tag = 3\<rparr>, [AddSub late_sub])"
    by (simp add: assms(1) stream_notes_def bounded_send_def CONTROL_CAPACITY_def late_sub_def)
  from flow_step.subscribe [OF _ this, of x P] have one: "flow_step x P fl ?fl1"
    by (simp add: assms(2))
  obtain st where st: "streamer_step x demo_env (Received (AddSub late_sub)) (sy_streamer ?fl1) = (Ok True, st)"
      "ss_manager st = fst (add_sub 5 late_sub (demo_manager [] 1))" "ss_chans st = ss_chans (sy_streamer ?fl1)"
    by (simp add: set_chan_def assms(3) demo_env_def case_prod_beta)
  have c: "tag_cursor (demo_manager [] 1) 3 = Some 1"
    by (simp add: tag_cursor_def demo_manager_def bt_get_def)
  then have m: "tag_cursor (ss_manager st) 3 = Some 1" "subs_abs (ss_manager st) (3, 10) \<noteq> None"
    unfolding st(2) subs_abs_add using add_sub_cursor [OF c] by (simp_all add: late_sub_def)
  have "sy_ctl ?fl1 = [AddSub late_sub]"
    by (simp add: set_chan_def)
  from flow_step.control [OF this st(1), of P]
  have "flow_step x P ?fl1 (?fl1\<lparr>sy_streamer := st, sy_ctl := [], sy_armed := False,
      sy_from := from_cursor (AddSub late_sub) (ss_manager st) (sy_from ?fl1)\<rparr>)" (is "flow_step _ _ _ ?fl2") .
  with one have "(flow_step x P)\<^sup>*\<^sup>* fl ?fl2"
    by (meson converse_rtranclp_into_rtranclp r_into_rtranclp)
  moreover have "queue ?fl2 10 = Some []" "sy_from ?fl2 10 = 1" "subs_abs (sys_manager ?fl2) (3, 10) \<noteq> None"
    using m by (simp_all add: st(3) late_sub_def)
  ultimately show ?thesis by blast
qed

text \<open>Steps of the streams alone, whatever the queries may meet, are steps of the node.\<close>

lemma stream_run_node_run:
  assumes "(flow_step x (\<lambda>_. False))\<^sup>*\<^sup>* (ns_flow s) fl"
  shows "\<exists>s'. (node_step x cfg)\<^sup>*\<^sup>* s s' \<and> ns_flow s' = fl \<and> ns_table s' = ns_table s"
  using assms
proof (induction rule: rtranclp_induct)
  case base
  then show ?case by blast
next
  case (step u v)
  then obtain s' where s': "(node_step x cfg)\<^sup>*\<^sup>* s s'" "ns_flow s' = u" "ns_table s' = ns_table s"
    by blast
  have "flow_step x (\<lambda>dbs. \<forall>t. dbs t \<in> set (ns_seen s')) u v"
    by (rule flow_step_mono [OF step.hyps(2)]) simp
  then have "node_step x cfg s' (put_flow v s')"
    using s'(2) by (intro node_step.stream) simp
  with s' show ?case
    by (intro exI [of _ "put_flow v s'"]) (auto intro: rtranclp.rtrancl_into_rtrancl)
qed

section \<open>A known stream between two moments\<close>

text \<open>
  What the stream of a subscription known at \<open>s1\<close> says at a later \<open>s2\<close>: it has everything read since
  \<open>s1\<close>, up to the pages it missed, and nothing that lies below where it started.
\<close>

lemma known_stream:
  assumes "node_ok x cfg s1" "codec_ok x" and "sint (tbl_seq (ns_table s1)) \<le> LEGACY \<Longrightarrow> hist_ok s1 i"
    and "subs_abs (sys_manager (ns_flow s1)) (t, i) \<noteq> None"
    and run: "(node_step x cfg)\<^sup>*\<^sup>* s1 s2" and "queue (ns_flow s2) i = Some q" and lim: "sint (tbl_seq (ns_table s2)) \<le> LEGACY"
  obtains R M cur where "concat (map stu_notes (sy_got (ns_flow s2) i)) @ concat (map fst q) = map row_transport R"
    "concat (map fst (sy_missed (ns_flow s2) i)) = map row_transport M" "tag_cursor (sys_manager (ns_flow s2)) t = Some cur"
    "\<forall>r \<in> set R. uint (sy_from (ns_flow s1) i) < row_key r"
    "\<And>r. r \<in> set (tbl_rows (ns_table s2)) \<Longrightarrow> has_tag [t] r \<Longrightarrow> sint (tbl_seq (ns_table s1)) < row_key r \<Longrightarrow>
       row_key r \<le> uint cur \<Longrightarrow> r \<in> set R \<or> r \<in> set M"
proof -
  have db1: "db_ok x (ns_table s1)"
    using assms(1) by (simp add: node_ok_def table_hist_ok_def)
  have "sint (tbl_seq (ns_table s1)) \<le> LEGACY"
    using db_run_high [OF node_run_db_run [OF run] db1] lim by simp
  then have h1: "hist_ok s1 i"
    by (rule assms(3))
  have live: "queue (ns_flow s1) i \<noteq> None" "sy_ids (ns_flow s1) i = Some t" "sy_ids (ns_flow s2) i = Some t"
      "subs_abs (sys_manager (ns_flow s2)) (t, i) \<noteq> None" "sy_from (ns_flow s2) i = sy_from (ns_flow s1) i"
    using node_run_known [OF run assms(1,2,4)] assms(6) by auto
  then obtain q1 where "queue (ns_flow s1) i = Some q1"
    by blast
  from open_stream [OF assms(1) h1 this live(2) assms(4)]
  have from1: "uint (sy_from (ns_flow s1) i) \<le> sint (tbl_seq (ns_table s1))"
    by metis
  note ok2 = node_run_ok [OF run assms(1,2)]
  from open_stream [OF ok2 node_run_hist [OF run assms(1,2) h1 lim] assms(6) live(3,4)]
  obtain R M cur where s2: "concat (map stu_notes (sy_got (ns_flow s2) i)) @ concat (map fst q) = map row_transport R"
      "concat (map fst (sy_missed (ns_flow s2) i)) = map row_transport M" "tag_cursor (sys_manager (ns_flow s2)) t = Some cur"
      "\<forall>r \<in> set R. uint (sy_from (ns_flow s1) i) < row_key r"
      "\<And>r. r \<in> set (tbl_rows (ns_table s2)) \<Longrightarrow> has_tag [t] r \<Longrightarrow> uint (sy_from (ns_flow s1) i) < row_key r \<Longrightarrow>
         row_key r \<le> uint cur \<Longrightarrow> r \<in> set R \<or> r \<in> set M"
    unfolding live(5) by metis
  show ?thesis
    by (rule that [OF s2(1-4) s2(5)]) (use from1 in simp_all)
qed

section \<open>Properties\<close>

text \<open>
  C7. Subscribe, then fetch. If the streaming task has taken in a client's subscription and the
  client then fetches from its cursor until a response is short, whatever else happens at the
  same time, then as long as its stream is open it lacks nothing: every row of the tag above its
  old cursor that is still stored and that the streaming task has read was fetched, was handed to
  the stream, waits in its channel, or was read by a round that found no waker of it stored.
\<close>

theorem subscribe_then_fetch_is_complete:
  assumes "db_ok x t0" and "codec_ok x"
    and "(node_step x cfg)\<^sup>*\<^sup>* (node_started days tel t0) s1"
    and "subs_abs (sys_manager (ns_flow s1)) (t, i) \<noteq> None"
    and "(sync_step x cfg tags)\<^sup>*\<^sup>* (s1, sync_new c0) (s2, c)" and "t \<in> set tags"
    and "uint c0 \<le> sint (tbl_seq (ns_table s1))" and "sc_done c"
    and "queue (ns_flow s2) i = Some q" and "sint (tbl_seq (ns_table s2)) \<le> LEGACY"
  shows "\<exists>F R M cur. sc_notes c = map row_transport F
    \<and> concat (map stu_notes (sy_got (ns_flow s2) i)) @ concat (map fst q) = map row_transport R
    \<and> concat (map fst (sy_missed (ns_flow s2) i)) = map row_transport M
    \<and> tag_cursor (sys_manager (ns_flow s2)) t = Some cur
    \<and> (\<forall>r \<in> set (tbl_rows (ns_table s2)). has_tag [t] r \<longrightarrow> uint c0 < row_key r \<longrightarrow> row_key r \<le> uint cur \<longrightarrow>
         r \<in> set F \<or> r \<in> set R \<or> r \<in> set M)"
proof -
  have run: "(node_step x cfg)\<^sup>*\<^sup>* s1 s2"
    using sync_run_node [OF assms(5)] by simp
  note ok1 = reachable_ok [OF assms(1-3)]
  obtain F where F: "sc_notes c = map row_transport F"
      "cursor_run (db_step x cfg) (pull_page tags) page_end (ns_table s1) (uint c0) (ns_table s2) (uint (sc_cursor c)) F"
      "uint (sc_cursor c) \<le> LEGACY"
    using sync_run_rows [OF assms(5) ok1(1) assms(2,7)] assms(10) by fastforce
  obtain R M cur where R: "concat (map stu_notes (sy_got (ns_flow s2) i)) @ concat (map fst q) = map row_transport R"
      "concat (map fst (sy_missed (ns_flow s2) i)) = map row_transport M" "tag_cursor (sys_manager (ns_flow s2)) t = Some cur"
      "\<And>r. r \<in> set (tbl_rows (ns_table s2)) \<Longrightarrow> has_tag [t] r \<Longrightarrow> sint (tbl_seq (ns_table s1)) < row_key r \<Longrightarrow>
         row_key r \<le> uint cur \<Longrightarrow> r \<in> set R \<or> r \<in> set M"
    using known_stream [OF ok1(1) assms(2) ok1(2) assms(4) run assms(9,10)] by metis
  have "r \<in> set F \<or> r \<in> set R \<or> r \<in> set M"
    if r: "r \<in> set (tbl_rows (ns_table s2))" "has_tag [t] r" "uint c0 < row_key r" "row_key r \<le> uint cur" for r
  proof (cases "row_key r \<le> uint (sc_cursor c)")
    case True
    then show ?thesis
      using pull.run_complete [OF F(2) ok1(3) assms(7) F(3) r(1) _ r(3)] r(2) assms(6) by auto
  next
    case False
    moreover have "has_tag tags r"
      using r(2) assms(6) by auto
    ultimately have "sint (tbl_seq (ns_table s1)) < row_key r"
      using sync_done_reached [OF assms(5) ok1(1) assms(2,7), unfolded fst_conv snd_conv, OF assms(10,8) r(1)] by force
    then show ?thesis
      using R(4) [OF r(1,2) _ r(4)] by simp
  qed
  with F(1) R(1-3) show ?thesis
    by blast
qed

theorem subscribe_then_fetch_is_complete_witness:
  "\<exists>s. (node_step mini_extern grpc_config_default)\<^sup>*\<^sup>* demo_start s \<and> tbl_rows (ns_table s) = [row1]
    \<and> (\<exists>F R M cur. [note1] = map row_transport F
    \<and> concat (map stu_notes (sy_got (ns_flow s) 9)) @ concat (map fst ([] :: transport_notes_pg list)) = map row_transport R
    \<and> concat (map fst (sy_missed (ns_flow s) 9)) = map row_transport M
    \<and> tag_cursor (sys_manager (ns_flow s)) 3 = Some cur
    \<and> (\<forall>r \<in> set (tbl_rows (ns_table s)). has_tag [3] r \<longrightarrow> uint (0 :: u64) < row_key r \<longrightarrow> row_key r \<le> uint cur \<longrightarrow>
         r \<in> set F \<or> r \<in> set R \<or> r \<in> set M))"
proof -
  obtain s where s: "(node_step mini_extern grpc_config_default)\<^sup>*\<^sup>* demo_start s" "ns_table s = table1"
      "queue (ns_flow s) 9 = Some []" "sys_manager (ns_flow s) = demo_manager [] 1"
    using demo_run by blast
  have h: "subs_abs (sys_manager (ns_flow s)) (3, 9) \<noteq> None" "3 \<in> set [3 :: u32]"
      "uint (0 :: u64) \<le> sint (tbl_seq (ns_table s))" "sc_done (demo_synced 1 [note1])"
      "sint (tbl_seq (ns_table s)) \<le> LEGACY"
    by (simp_all add: s(2,4) table1_def demo_manager_def demo_synced_def subs_abs_def bt_get_def)
  note p = subscribe_then_fetch_is_complete [OF db_ok_empty mini_codec_ok s(1) [unfolded demo_start_def] h(1)
      r_into_rtranclp [of "sync_step mini_extern grpc_config_default [3]", OF demo_fetch_row [OF s(2)]] h(2-4) s(3) h(5)]
  have "sc_notes (demo_synced 1 [note1]) = [note1]" "tbl_rows (ns_table s) = [row1]"
    by (simp_all add: demo_synced_def s(2) table1_def)
  with p s(1) show ?thesis
    by (intro exI [of _ s]) simp
qed

text \<open>
  C21. Fetch, then subscribe. A client that follows the documented order (fetch with the persisted
  cursor, then open the stream) can have a gap: a row stored after its fetch and read by the
  streaming task, for another subscriber of the tag, before it takes the new subscription in, is
  neither fetched nor ever delivered or queued on the stream, as long as it is open.
\<close>

theorem fetch_then_subscribe_leaves_gap:
  assumes "db_ok x t0" and "codec_ok x"
    and "(node_step x cfg)\<^sup>*\<^sup>* (node_started days tel t0) s0"
    and "(sync_step x cfg tags)\<^sup>*\<^sup>* (s0, sync_new c0) (s1, c)" and "uint c0 \<le> sint (tbl_seq (ns_table s0))"
    and "(node_step x cfg)\<^sup>*\<^sup>* s1 s2" and "subs_abs (sys_manager (ns_flow s2)) (t, i) \<noteq> None"
    and "sint (tbl_seq (ns_table s1)) < row_key r" "row_key r \<le> uint (sy_from (ns_flow s2) i)"
    and "(node_step x cfg)\<^sup>*\<^sup>* s2 s3" and "queue (ns_flow s3) i = Some q" and "sint (tbl_seq (ns_table s3)) \<le> LEGACY"
  shows "\<exists>F R. sc_notes c = map row_transport F \<and> (\<forall>r' \<in> set F. row_key r' < row_key r)
    \<and> concat (map stu_notes (sy_got (ns_flow s3) i)) @ concat (map fst q) = map row_transport R
    \<and> (\<forall>r' \<in> set R. row_key r < row_key r')"
proof -
  note run1 = sync_run_node [OF assms(4), unfolded fst_conv]
  note ok0 = reachable_ok [OF assms(1-3)]
  note ok1 = reachable_ok [OF assms(1,2) rtranclp_trans [OF assms(3) run1]]
  note ok2 = reachable_ok [OF assms(1,2) rtranclp_trans [OF rtranclp_trans [OF assms(3) run1] assms(6)]]
  have "sint (tbl_seq (ns_table s1)) \<le> LEGACY"
    using db_run_high [OF node_run_db_run [OF rtranclp_trans [OF assms(6,10)]] ok1(3)] assms(12) by simp
  moreover obtain F where F: "sc_notes c = map row_transport F"
      "cursor_run (db_step x cfg) (pull_page tags) page_end (ns_table s0) (uint c0) (ns_table s1) (uint (sc_cursor c)) F"
      "uint (sc_cursor c) \<le> sint (tbl_seq (ns_table s1))"
    using sync_run_rows [OF assms(4) ok0(1) assms(2,5)] by blast
  ultimately have "\<forall>r' \<in> set F. row_key r' \<le> uint (sc_cursor c)"
    using pull.run_sorted [OF F(2) ok0(3)] by simp
  then have f: "\<forall>r' \<in> set F. row_key r' < row_key r"
    using F(3) assms(8) by fastforce
  obtain R where "concat (map stu_notes (sy_got (ns_flow s3) i)) @ concat (map fst q) = map row_transport R"
      "\<forall>r' \<in> set R. uint (sy_from (ns_flow s2) i) < row_key r'"
    using known_stream [OF ok2(1) assms(2) ok2(2) assms(7,10-12)] by metis
  then show ?thesis
    using F(1) f assms(9) by (intro exI [of _ F] exI [of _ R]) fastforce
qed

theorem fetch_then_subscribe_leaves_gap_witness:
  "\<exists>s. (node_step mini_extern grpc_config_default)\<^sup>*\<^sup>* demo_start s
    \<and> (sync_step mini_extern grpc_config_default [3])\<^sup>*\<^sup>* (demo_start, sync_new 0) (demo_start, demo_synced 0 [])
    \<and> tbl_rows (ns_table s) = [row1] \<and> has_tag [3] row1 \<and> queue (ns_flow s) 10 = Some []
    \<and> (\<exists>F R. sc_notes (demo_synced 0 []) = map row_transport F \<and> (\<forall>r' \<in> set F. row_key r' < row_key row1)
      \<and> concat (map stu_notes (sy_got (ns_flow s) 10)) @ concat (map fst ([] :: transport_notes_pg list)) = map row_transport R
      \<and> (\<forall>r' \<in> set R. row_key row1 < row_key r'))"
proof -
  obtain s where s: "(node_step mini_extern grpc_config_default)\<^sup>*\<^sup>* demo_start s" "ns_table s = table1"
      "sy_ctl (ns_flow s) = []" "sy_ids (ns_flow s) = [9 \<mapsto> 3]" "sys_manager (ns_flow s) = demo_manager [] 1"
    using demo_run by blast
  obtain fl where fl: "(flow_step mini_extern (\<lambda>_. False))\<^sup>*\<^sup>* (ns_flow s) fl" "queue fl 10 = Some []" "sy_from fl 10 = 1"
      "subs_abs (sys_manager fl) (3, 10) \<noteq> None"
    using demo_late [OF s(3-5), of mini_extern "\<lambda>_. False"] by blast
  obtain s' where s': "(node_step mini_extern grpc_config_default)\<^sup>*\<^sup>* s s'" "ns_flow s' = fl" "ns_table s' = ns_table s"
    using stream_run_node_run [OF fl(1)] by blast
  have run: "(node_step mini_extern grpc_config_default)\<^sup>*\<^sup>* demo_start s'"
    using s(1) s'(1) by simp
  have fetched: "(sync_step mini_extern grpc_config_default [3])\<^sup>*\<^sup>* (demo_start, sync_new 0) (demo_start, demo_synced 0 [])"
    by (rule r_into_rtranclp) (rule demo_fetch_empty)
  have h: "uint (0 :: u64) \<le> sint (tbl_seq (ns_table demo_start))" "subs_abs (sys_manager (ns_flow s')) (3, 10) \<noteq> None"
      "sint (tbl_seq (ns_table demo_start)) < row_key row1" "row_key row1 \<le> uint (sy_from (ns_flow s') 10)"
      "queue (ns_flow s') 10 = Some []" "sint (tbl_seq (ns_table s')) \<le> LEGACY"
    using fl(2-4) by (simp_all add: s' s(2) table1_def row1_def demo_start_def node_started_def empty_table_def)
  note p = fetch_then_subscribe_leaves_gap [OF db_ok_empty mini_codec_ok
      rtranclp.rtrancl_refl [of "node_step mini_extern grpc_config_default"] fetched [unfolded demo_start_def] h(1) [unfolded demo_start_def]
      run [unfolded demo_start_def] h(2,3) [unfolded demo_start_def] h(4) rtranclp.rtrancl_refl h(5,6)]
  have "tbl_rows (ns_table s') = [row1]" "has_tag [3] row1"
    by (simp_all add: s'(3) s(2) table1_def row1_def i64_of_u32_def)
  with p fetched run h(5) show ?thesis
    by (intro exI [of _ s']) blast
qed

end
