(* ===== verification/NodeProgress.thy ===== *)
theory NodeProgress
  imports NodeProps
begin

text \<open>
  That delivery is always possible: from every state of a run of the node, a stored row of its tag
  that the streaming task has not read can still reach a subscriber whose stream is open, by
  steps of the streaming task and polls of that stream alone.
\<close>

section \<open>Queries without failures\<close>





section \<open>Stages\<close>





section \<open>Reading on until the row is there\<close>





section \<open>In the node\<close>







section \<open>Property\<close>



end
