(* ===== verification/Database.thy ===== *)
theory Database
  imports DbSetup
begin

text \<open>
  The database interface of the node (crates/node/src/database/mod.rs): the trait
  \<open>DatabaseBackend\<close> as a record of its methods, the SQLite backend as one value of it, \<open>Database\<close>
  with its forwarding methods, and the contract of a backend as a locale: a log of notes under
  increasing numbers. What follows from the contract is proved once for every backend; the
  interpretation shows that the SQLite backend keeps it.
\<close>

section \<open>The trait and \<open>Database\<close>\<close>

text \<open>A method takes the state of the backend and returns it with its result; \<open>None\<close> is a panic.\<close>

record ('h, 't, 's) database_backend =
  be_store_note :: "('h, 't) stored_note \<Rightarrow> 's \<Rightarrow> (unit, db_error) result \<times> 's"
  be_fetch_notes :: "u32 \<Rightarrow> u64 \<Rightarrow> 's \<Rightarrow> (('h, 't) stored_note list, db_error) result \<times> 's"
  be_fetch_notes_by_tags :: "u32 list \<Rightarrow> u64 \<Rightarrow> 's \<Rightarrow> (('h, 't) stored_note list, db_error) result \<times> 's"
  be_get_stats :: "'s \<Rightarrow> (u64 \<times> u64, db_error) result \<times> 's"
  be_cleanup_old_notes :: "u32 \<Rightarrow> 's \<Rightarrow> ((u64, db_error) result \<times> 's) option"
  be_note_exists :: "bytes \<Rightarrow> 's \<Rightarrow> (bool, db_error) result \<times> 's"

record ('h, 't, 's) database =
  dbs_backend :: "('h, 't, 's) database_backend"

text \<open>\<open>Database\<close>'s methods hand their arguments to the backend.\<close>

definition database_store_note ::
  "('h, 't, 's) database \<Rightarrow> ('h, 't) stored_note \<Rightarrow> 's \<Rightarrow> (unit, db_error) result \<times> 's" where
  "database_store_note db note s =
     (case be_store_note (dbs_backend db) note s of
        (Err e, s) \<Rightarrow> (Err e, s)
      | (Ok _, s) \<Rightarrow> (Ok (), s))"

definition database_fetch_notes ::
  "('h, 't, 's) database \<Rightarrow> u32 \<Rightarrow> u64 \<Rightarrow> 's \<Rightarrow> (('h, 't) stored_note list, db_error) result \<times> 's" where
  "database_fetch_notes db tag cursor s = be_fetch_notes (dbs_backend db) tag cursor s"

definition database_fetch_notes_by_tags ::
  "('h, 't, 's) database \<Rightarrow> u32 list \<Rightarrow> u64 \<Rightarrow> 's \<Rightarrow> (('h, 't) stored_note list, db_error) result \<times> 's" where
  "database_fetch_notes_by_tags db tags cursor s = be_fetch_notes_by_tags (dbs_backend db) tags cursor s"

definition database_get_stats :: "('h, 't, 's) database \<Rightarrow> 's \<Rightarrow> (u64 \<times> u64, db_error) result \<times> 's" where
  "database_get_stats db s = be_get_stats (dbs_backend db) s"

definition database_cleanup_old_notes ::
  "('h, 't, 's) database \<Rightarrow> u32 \<Rightarrow> 's \<Rightarrow> ((u64, db_error) result \<times> 's) option" where
  "database_cleanup_old_notes db retention_days s = be_cleanup_old_notes (dbs_backend db) retention_days s"

definition database_note_exists :: "('h, 't, 's) database \<Rightarrow> bytes \<Rightarrow> 's \<Rightarrow> (bool, db_error) result \<times> 's" where
  "database_note_exists db note_id s = be_note_exists (dbs_backend db) note_id s"

lemmas database_methods =
  database_store_note_def database_fetch_notes_def database_fetch_notes_by_tags_def
  database_get_stats_def database_cleanup_old_notes_def database_note_exists_def

section \<open>The SQLite backend\<close>

text \<open>
  \<open>impl DatabaseBackend for SqliteDatabase\<close>, under the failures \<open>f\<close> its calls meet and the time
  \<open>now\<close>; its state is the table and the telemetry.
\<close>

definition sqlite_backend ::
  "('h, 't) extern \<Rightarrow> faults \<Rightarrow> 't \<Rightarrow> ('h, 't, notes_table \<times> telemetry) database_backend" where
  "sqlite_backend x f now =
     \<lparr>be_store_note = (\<lambda>note (t, tel). db_store_note x f note t tel),
      be_fetch_notes = (\<lambda>tag cursor (t, tel). let (r, tel) = db_fetch_notes x f tag cursor t tel in (r, (t, tel))),
      be_fetch_notes_by_tags = (\<lambda>tags cursor (t, tel).
        let (r, tel) = db_fetch_notes_by_tags x f tags cursor t tel in (r, (t, tel))),
      be_get_stats = (\<lambda>(t, tel). (db_get_stats f t, (t, tel))),
      be_cleanup_old_notes = (\<lambda>days (t, tel).
        map_option (\<lambda>(r, t). (r, (t, tel))) (db_cleanup_old_notes x f now days t)),
      be_note_exists = (\<lambda>i (t, tel). (db_note_exists f i t, (t, tel)))\<rparr>"

text \<open>\<open>Database::connect\<close>: the SQLite backend, or its error.\<close>

definition database_connect ::
  "('h, 't) extern \<Rightarrow> faults \<Rightarrow> 't \<Rightarrow> string set \<Rightarrow> (string \<Rightarrow> (unit, string) result)
     \<Rightarrow> (nat \<Rightarrow> (unit, string) result) \<Rightarrow> database_config
     \<Rightarrow> (('h, 't, notes_table \<times> telemetry) database, db_error) result \<times> string set" where
  "database_connect x f now files create build config =
     (let (res, files) = db_connect files create build config
      in (res_bind res (\<lambda>pool. Ok \<lparr>dbs_backend = sqlite_backend x f now\<rparr>), files))"

section \<open>The contract of a backend\<close>

text \<open>
  A backend keeps a log of notes under increasing numbers. Storing appends a note with a new
  identifier under the next number, its time cut to microseconds, and refuses a known one; a
  fetch selects by tags and cursor, 500 notes at a time; the counts count; the cleanup drops what
  is older than the cutoff. Nothing else changes the log.
\<close>

definition ts_trunc :: "('h, 't) extern \<Rightarrow> 't \<Rightarrow> 't" where
  "ts_trunc x t = (case ts_from_micros x (ts_micros x t) of Some t' \<Rightarrow> t' | None \<Rightarrow> t)"

definition stamped :: "('h, 't) extern \<Rightarrow> int \<Rightarrow> ('h, 't) stored_note \<Rightarrow> ('h, 't) stored_note" where
  "stamped x k n = n\<lparr>sn_seq := word_of_int k, sn_created_at := ts_trunc x (sn_created_at n)\<rparr>"

abbreviation note_id :: "('h, 't) extern \<Rightarrow> ('h, 't) stored_note \<Rightarrow> bytes" where
  "note_id x n \<equiv> hdr_id x (sn_header n)"

abbreviation note_tag :: "('h, 't) extern \<Rightarrow> ('h, 't) stored_note \<Rightarrow> u32" where
  "note_tag x n \<equiv> hdr_tag x (sn_header n)"

abbreviation note_key :: "('h, 't) stored_note \<Rightarrow> int" where
  "note_key n \<equiv> sint (sn_seq n)"

locale note_store =
  fixes x :: "('h, 't) extern"
    and be :: "('h, 't, 's) database_backend"
    and cutoff :: "u32 \<Rightarrow> int option"
    and invar :: "'s \<Rightarrow> bool"
    and log :: "'s \<Rightarrow> ('h, 't) stored_note list"
    and high :: "'s \<Rightarrow> int"
  assumes log_sorted: "invar s \<Longrightarrow> sorted_wrt (<) (map note_key (log s))"
    and log_keys: "invar s \<Longrightarrow> n \<in> set (log s) \<Longrightarrow> 0 < note_key n \<and> note_key n \<le> high s"
    and high_nonneg: "invar s \<Longrightarrow> 0 \<le> high s"
    and store_new: "invar s \<Longrightarrow> note_id x n \<notin> note_id x ` set (log s) \<Longrightarrow> high s < 2 ^ 63 - 1 \<Longrightarrow>
      \<exists>s'. be_store_note be n s = (Ok (), s') \<and> invar s' \<and> high s' = high s + 1 \<and>
        log s' = log s @ [stamped x (high s + 1) n]"
    and store_known: "invar s \<Longrightarrow> note_id x n \<in> note_id x ` set (log s) \<Longrightarrow>
      \<exists>e s'. be_store_note be n s = (Err e, s') \<and> invar s' \<and> high s' = high s \<and> log s' = log s"
    and fetch_tags: "invar s \<Longrightarrow>
      \<exists>s'. be_fetch_notes_by_tags be tags c s =
          (Ok (take 500 (filter (\<lambda>n. note_tag x n \<in> set tags \<and> cursor_value c < note_key n) (log s))), s')
        \<and> invar s' \<and> high s' = high s \<and> log s' = log s"
    and fetch_tag: "be_fetch_notes be t c s = be_fetch_notes_by_tags be [t] c s"
    and get_stats: "invar s \<Longrightarrow>
      \<exists>n k s'. be_get_stats be s = (Ok (n, k), s') \<and> uint n = int (length (log s)) \<and>
        uint k = int (card (note_tag x ` set (log s))) \<and> invar s' \<and> high s' = high s \<and> log s' = log s"
    and note_exists: "invar s \<Longrightarrow>
      \<exists>s'. be_note_exists be i s = (Ok (i \<in> note_id x ` set (log s)), s') \<and> invar s' \<and> high s' = high s \<and> log s' = log s"
    and cleanup: "invar s \<Longrightarrow> cutoff days = Some m \<Longrightarrow>
      \<exists>k s'. be_cleanup_old_notes be days s = Some (Ok k, s') \<and> invar s' \<and> high s' = high s \<and>
        uint k = int (length (filter (\<lambda>n. sint (ts_micros x (sn_created_at n)) < m) (log s))) \<and>
        log s' = filter (\<lambda>n. m \<le> sint (ts_micros x (sn_created_at n))) (log s)"

section \<open>The SQLite backend keeps it\<close>

text \<open>The note a row is read as.\<close>

definition row_note :: "('h, 't) extern \<Rightarrow> note_row \<Rightarrow> ('h, 't) stored_note" where
  "row_note x r = (case stored_of_row x r of Ok n \<Rightarrow> n | Err e \<Rightarrow> undefined)"

lemma ts_trunc_ok: "clock_ok x \<Longrightarrow> ts_from_micros x (ts_micros x t) = Some (ts_trunc x t) \<and> ts_micros x (ts_trunc x t) = ts_micros x t"
proof -
  assume "clock_ok x"
  then obtain t' where "ts_from_micros x (ts_micros x t) = Some t'" "ts_micros x t' = ts_micros x t"
    by (auto simp: clock_ok_def)
  then show ?thesis by (simp add: ts_trunc_def)
qed

lemma row_note_written:
  assumes "codec_ok x" and "clock_ok x"
  shows "stored_of_row x (row_of_new s (new_note_of_stored x n)) = Ok (n\<lparr>sn_seq := s, sn_created_at := ts_trunc x (sn_created_at n)\<rparr>)"
    "row_note x (row_of_new s (new_note_of_stored x n)) = n\<lparr>sn_seq := s, sn_created_at := ts_trunc x (sn_created_at n)\<rparr>"
  using assms ts_trunc_ok [OF assms(2)]
  by (simp_all add: row_note_def stored_of_row_def new_note_of_stored_def codec_okD)

lemma row_note_columns:
  assumes "codec_ok x" "clock_ok x" and "well_formed_row x r"
  shows "stored_of_row x r = Ok (row_note x r)" "note_id x (row_note x r) = nr_id r"
    "i64_of_u32 (note_tag x (row_note x r)) = nr_tag r" "sn_seq (row_note x r) = nr_seq r"
    "ts_micros x (sn_created_at (row_note x r)) = nr_created_at r"
proof -
  obtain n where r: "r = row_of_new (nr_seq r) (new_note_of_stored x n)"
    using assms(3) by (auto simp: well_formed_row_def)
  note w = row_note_written [OF assms(1,2), of "nr_seq r" n, folded r]
  show "stored_of_row x r = Ok (row_note x r)"
    using w by simp
  have c: "nr_id r = note_id x n" "nr_tag r = i64_of_u32 (note_tag x n)" "nr_created_at r = ts_micros x (sn_created_at n)"
    by (subst r, simp add: new_note_of_stored_def)+
  show "note_id x (row_note x r) = nr_id r" "i64_of_u32 (note_tag x (row_note x r)) = nr_tag r"
    "sn_seq (row_note x r) = nr_seq r" "ts_micros x (sn_created_at (row_note x r)) = nr_created_at r"
    using c ts_trunc_ok [OF assms(2)] by (simp_all add: w(2))
qed

lemma fetch_conversion_row_notes:
  assumes "codec_ok x" "clock_ok x" and "\<And>r. r \<in> set rows \<Longrightarrow> well_formed_row x r"
  shows "fetch_conversion x rows = Ok (map (row_note x) rows)"
  unfolding fetch_conversion_Ok_iff list_all2_map2
  using row_note_columns(1) [OF assms(1,2)] assms(3) by (auto simp: list_all2_same)

abbreviation sqlite_log :: "('h, 't) extern \<Rightarrow> notes_table \<times> telemetry \<Rightarrow> ('h, 't) stored_note list" where
  "sqlite_log x s \<equiv> map (row_note x) (tbl_rows (fst s))"

abbreviation sqlite_invar :: "('h, 't) extern \<Rightarrow> notes_table \<times> telemetry \<Rightarrow> bool" where
  "sqlite_invar x s \<equiv> db_ok x (fst s) \<and> codec_ok x \<and> clock_ok x"

abbreviation sqlite_high :: "notes_table \<times> telemetry \<Rightarrow> int" where
  "sqlite_high s \<equiv> sint (tbl_seq (fst s))"

abbreviation sqlite_cutoff :: "('h, 't) extern \<Rightarrow> 't \<Rightarrow> u32 \<Rightarrow> int option" where
  "sqlite_cutoff x now days \<equiv> map_option (\<lambda>t. sint (ts_micros x t)) (ts_minus_days x now (i64_of_u32 days))"

lemma sqlite_rows:
  assumes "sqlite_invar x s" and "r \<in> set (tbl_rows (fst s))"
  shows "well_formed_row x r"
  using assms by (simp add: db_ok_def)

lemma sqlite_columns:
  assumes "sqlite_invar x s" and "r \<in> set (tbl_rows (fst s))"
  shows "note_id x (row_note x r) = nr_id r" "i64_of_u32 (note_tag x (row_note x r)) = nr_tag r"
    "note_key (row_note x r) = row_key r" "ts_micros x (sn_created_at (row_note x r)) = nr_created_at r"
  using row_note_columns [OF _ _ sqlite_rows [OF assms]] assms(1) by simp_all

lemma sqlite_ids: "sqlite_invar x s \<Longrightarrow> note_id x ` set (sqlite_log x s) = nr_id ` set (tbl_rows (fst s))"
  using sqlite_columns(1) by (force simp: image_image)

lemma sqlite_tags: "sqlite_invar x s \<Longrightarrow> i64_of_u32 ` note_tag x ` set (sqlite_log x s) = nr_tag ` set (tbl_rows (fst s))"
  using sqlite_columns(2) by (force simp: image_image)

lemma sqlite_page:
  assumes "sqlite_invar x s"
  shows "map (row_note x) (query_page tags c (fst s)) =
    take 500 (filter (\<lambda>n. note_tag x n \<in> set tags \<and> c < note_key n) (sqlite_log x s))"
proof -
  have "filter (\<lambda>r. nr_tag r \<in> i64_of_u32 ` set tags \<and> c < row_key r) (tbl_rows (fst s)) =
      filter (\<lambda>r. note_tag x (row_note x r) \<in> set tags \<and> c < note_key (row_note x r)) (tbl_rows (fst s))"
  proof (rule filter_cong [OF refl])
    fix r
    assume "r \<in> set (tbl_rows (fst s))"
    note c = sqlite_columns [OF assms this]
    have "nr_tag r \<in> i64_of_u32 ` set tags \<longleftrightarrow> note_tag x (row_note x r) \<in> set tags"
      unfolding c(2) [symmetric] by (simp add: image_iff)
    then show "(nr_tag r \<in> i64_of_u32 ` set tags \<and> c < row_key r) =
        (note_tag x (row_note x r) \<in> set tags \<and> c < note_key (row_note x r))"
      by (simp add: c(3))
  qed
  then show ?thesis
    by (simp add: query_page_def take_map filter_map comp_def)
qed

lemma sqlite_store_new:
  assumes s: "sqlite_invar x s" and n: "note_id x n \<notin> note_id x ` set (sqlite_log x s)" and h: "sqlite_high s < 2 ^ 63 - 1"
  shows "\<exists>s'. be_store_note (sqlite_backend x no_faults now) n s = (Ok (), s') \<and> sqlite_invar x s'
    \<and> sqlite_high s' = sqlite_high s + 1 \<and> sqlite_log x s' = sqlite_log x s @ [stamped x (sqlite_high s + 1) n]"
proof -
  obtain t tel where t: "s = (t, tel)" by fastforce
  have ok: "db_ok x t" "codec_ok x" "clock_ok x"
    using s by (simp_all add: t)
  have "nn_id (new_note_of_stored x n) \<notin> nr_id ` set (tbl_rows t)"
    using n unfolding sqlite_ids [OF s] by (simp add: new_note_of_stored_def t)
  then obtain u where u: "sql_insert (new_note_of_stored x n) t = Ok u"
    using sql_insert_fresh [OF db_ok_table [OF ok(1)]] h t by auto
  obtain t' tel' where d: "db_store_note x no_faults n t tel = (Ok (), t', tel')" "sql_insert (new_note_of_stored x n) t = Ok t'"
    using db_store_note_no_faults_cases [of x n t tel] u by (metis result.distinct(1))
  obtain k where k: "sint k = sint (tbl_seq t) + 1"
      "tbl_rows t' = tbl_rows t @ [row_of_new k (new_note_of_stored x n)]" "tbl_seq t' = k"
    using sql_insert_OkD [OF db_ok_table [OF ok(1)] d(2)] by metis
  have "k = word_of_int (sint k)"
    by simp
  then have "k = word_of_int (sint (tbl_seq t) + 1)"
    unfolding k(1) .
  moreover have "db_ok x t'"
    using db_store_note_ok [OF ok(1), of no_faults n tel] d(1) by simp
  ultimately show ?thesis
    using d(1) k ok by (intro exI [of _ "(t', tel')"])
      (simp add: t sqlite_backend_def stamped_def row_note_written(2))
qed

lemma sqlite_store_known:
  assumes s: "sqlite_invar x s" and n: "note_id x n \<in> note_id x ` set (sqlite_log x s)"
  shows "\<exists>e s'. be_store_note (sqlite_backend x no_faults now) n s = (Err e, s') \<and> sqlite_invar x s'
    \<and> sqlite_high s' = sqlite_high s \<and> sqlite_log x s' = sqlite_log x s"
proof -
  obtain t tel where t: "s = (t, tel)" by fastforce
  have "nn_id (new_note_of_stored x n) \<in> nr_id ` set (tbl_rows t)"
    using n unfolding sqlite_ids [OF s] by (simp add: new_note_of_stored_def t)
  then obtain e tel' where "db_store_note x no_faults n t tel = (Err (db_error_of_diesel e), t, tel')"
    using db_store_note_no_faults_cases [of x n t tel] sql_insert_duplicate by (metis result.distinct(1))
  then show ?thesis
    using s by (simp add: t sqlite_backend_def)
qed

lemma sqlite_fetch_tags:
  assumes s: "sqlite_invar x s"
  shows "\<exists>s'. be_fetch_notes_by_tags (sqlite_backend x no_faults now) tags c s =
      (Ok (take 500 (filter (\<lambda>n. note_tag x n \<in> set tags \<and> cursor_value c < note_key n) (sqlite_log x s))), s')
    \<and> sqlite_invar x s' \<and> sqlite_high s' = sqlite_high s \<and> sqlite_log x s' = sqlite_log x s"
proof -
  obtain t tel where t: "s = (t, tel)" by fastforce
  have ok: "db_ok x t" "codec_ok x" "clock_ok x"
    using s by (simp_all add: t)
  have "well_formed_row x r" if "r \<in> set (query_page tags (cursor_value c) t)" for r
    using query_page_in [OF that] ok(1) by (simp add: db_ok_def)
  then have "fetch_conversion x (query_page tags (cursor_value c) t) = Ok (map (row_note x) (query_page tags (cursor_value c) t))"
    by (rule fetch_conversion_row_notes [OF ok(2,3)])
  then have "fst (db_fetch_notes_by_tags x no_faults tags c t tel) =
      Ok (take 500 (filter (\<lambda>n. note_tag x n \<in> set tags \<and> cursor_value c < note_key n) (sqlite_log x s)))"
    unfolding db_fetch_notes_by_tags_no_faults [OF db_ok_table [OF ok(1)]]
    using sqlite_page [OF s, of tags "cursor_value c"] by (simp add: t)
  then show ?thesis
    using ok by (simp add: t sqlite_backend_def case_prod_beta)
qed

lemma sqlite_get_stats:
  assumes s: "sqlite_invar x s"
  shows "\<exists>n k s'. be_get_stats (sqlite_backend x no_faults now) s = (Ok (n, k), s')
    \<and> uint n = int (length (sqlite_log x s)) \<and> uint k = int (card (note_tag x ` set (sqlite_log x s)))
    \<and> sqlite_invar x s' \<and> sqlite_high s' = sqlite_high s \<and> sqlite_log x s' = sqlite_log x s"
proof -
  obtain t tel where t: "s = (t, tel)" by fastforce
  have "inj_on i64_of_u32 (note_tag x ` set (sqlite_log x s))"
    by (simp add: inj_on_def)
  from card_image [OF this] have "card (nr_tag ` set (tbl_rows t)) = card (note_tag x ` set (sqlite_log x s))"
    unfolding sqlite_tags [OF s] by (simp add: t)
  moreover have "db_get_stats no_faults t = Ok (u64_or_zero (sql_count t), u64_or_zero (sql_count_distinct_tag t))"
    by (simp add: db_get_stats_def)
  moreover have "table_ok t"
    using s db_ok_table [of x t] by (simp add: t)
  ultimately show ?thesis
    using s sql_count_values by (simp add: t sqlite_backend_def)
qed

lemma sqlite_note_exists:
  assumes s: "sqlite_invar x s"
  shows "\<exists>s'. be_note_exists (sqlite_backend x no_faults now) i s = (Ok (i \<in> note_id x ` set (sqlite_log x s)), s')
    \<and> sqlite_invar x s' \<and> sqlite_high s' = sqlite_high s \<and> sqlite_log x s' = sqlite_log x s"
proof -
  obtain t tel where t: "s = (t, tel)" by fastforce
  have "table_ok t"
    using s db_ok_table [of x t] by (simp add: t)
  moreover obtain b where "db_note_exists no_faults i t = Ok b"
    by (simp add: db_note_exists_def)
  ultimately show ?thesis
    using db_note_exists_OkD s unfolding sqlite_ids [OF s] by (simp add: t sqlite_backend_def)
qed

lemma sqlite_cleanup:
  assumes s: "sqlite_invar x s" and m: "sqlite_cutoff x now days = Some m"
  shows "\<exists>k s'. be_cleanup_old_notes (sqlite_backend x no_faults now) days s = Some (Ok k, s')
    \<and> sqlite_invar x s' \<and> sqlite_high s' = sqlite_high s
    \<and> uint k = int (length (filter (\<lambda>n. sint (ts_micros x (sn_created_at n)) < m) (sqlite_log x s)))
    \<and> sqlite_log x s' = filter (\<lambda>n. m \<le> sint (ts_micros x (sn_created_at n))) (sqlite_log x s)"
proof -
  obtain t tel where t: "s = (t, tel)" by fastforce
  have ok: "db_ok x t" "codec_ok x" "clock_ok x"
    using s by (simp_all add: t)
  obtain c where c: "ts_minus_days x now (i64_of_u32 days) = Some c" "m = sint (ts_micros x c)"
    using m by auto
  let ?t' = "snd (sql_delete_older (ts_micros x c) t)"
  let ?k = "fst (sql_delete_older (ts_micros x c) t)"
  have d: "db_cleanup_old_notes x no_faults now days t = Some (Ok (u64_or_zero (i64_or_zero ?k)), ?t')"
    by (simp add: db_cleanup_old_notes_def c(1) Let_def case_prod_beta)
  have k: "?k = length (filter (\<lambda>r. sint (nr_created_at r) < m) (tbl_rows t))"
    by (simp add: sql_delete_older_def c(2))
  have "length (tbl_rows t) < 2 ^ 63"
    using table_ok_length_bound [OF db_ok_table [OF ok(1)]] .
  then have "?k < 2 ^ 63"
    unfolding k by (rule le_less_trans [OF length_filter_le])
  then have u: "uint (u64_or_zero (i64_or_zero ?k)) = int ?k"
    by (rule uint_count)
  have col: "ts_micros x (sn_created_at (row_note x r)) = nr_created_at r" if "r \<in> set (tbl_rows t)" for r
    using sqlite_columns(4) [OF s] that by (simp add: t)
  then have f: "filter (P \<circ> (\<lambda>n. sint (ts_micros x (sn_created_at n))) \<circ> row_note x) (tbl_rows t) =
      filter (\<lambda>r. P (sint (nr_created_at r))) (tbl_rows t)" for P
    by (intro filter_cong) auto
  have "length (filter (\<lambda>n. sint (ts_micros x (sn_created_at n)) < m) (sqlite_log x s)) = ?k"
    using f [of "\<lambda>v. v < m"] unfolding k by (simp add: t filter_map comp_def)
  moreover have "map (row_note x) (tbl_rows ?t') = filter (\<lambda>n. m \<le> sint (ts_micros x (sn_created_at n))) (sqlite_log x s)"
    using f [of "\<lambda>v. m \<le> v"] by (simp add: t filter_map comp_def c(2) not_less)
  moreover have "db_ok x ?t'"
    by (rule db_cleanup_ok [OF ok(1) d])
  ultimately show ?thesis
    using d u ok(2,3) by (simp add: t sqlite_backend_def)
qed

interpretation sqlite: note_store x "sqlite_backend x no_faults now" "sqlite_cutoff x now" "sqlite_invar x" "sqlite_log x"
    sqlite_high for x now
proof unfold_locales
  fix s
  assume s: "sqlite_invar x s"
  have "map note_key (sqlite_log x s) = map row_key (tbl_rows (fst s))"
    using sqlite_columns(3) [OF s] by simp
  then show "sorted_wrt (<) (map note_key (sqlite_log x s))"
    using s table_okD(1) db_ok_table by metis
  show "0 \<le> sqlite_high s"
    using s table_okD(4) db_ok_table by blast
  show "0 < note_key n \<and> note_key n \<le> sqlite_high s" if "n \<in> set (sqlite_log x s)" for n
    using that sqlite_columns(3) [OF s] table_okD(2,3) [OF db_ok_table] s by auto
next
  show "be_fetch_notes (sqlite_backend x no_faults now) t c s = be_fetch_notes_by_tags (sqlite_backend x no_faults now) [t] c s" for t c s
    by (cases s) (simp add: sqlite_backend_def db_fetch_notes_def)
qed (rule sqlite_store_new sqlite_store_known sqlite_fetch_tags sqlite_get_stats sqlite_note_exists sqlite_cleanup; assumption)+

end
