(* ===== verification/BackendReader.thy ===== *)
theory BackendReader
  imports Database
begin

text \<open>
  Every backend that keeps the contract of \<open>DatabaseBackend\<close> supports a reader with a cursor: the
  contract of theory \<open>Database\<close> gives the one of theory \<open>CursorLog\<close>, and so do the calls of
  \<open>Database\<close> on the SQLite backend.
\<close>

section \<open>Calls and reads\<close>

text \<open>
  A call of any method by anyone, while a number is left and for a cleanup that finds its cutoff;
  and what a fetch at a cursor returns.
\<close>

inductive backend_step ::
  "('h, 't, 's) database_backend \<Rightarrow> (u32 \<Rightarrow> int option) \<Rightarrow> ('s \<Rightarrow> int) \<Rightarrow> 's \<Rightarrow> 's \<Rightarrow> bool" for be cutoff high where
  store_call: "high s < 2 ^ 63 - 1 \<Longrightarrow> be_store_note be n s = (r, s') \<Longrightarrow> backend_step be cutoff high s s'"
| fetch_call: "be_fetch_notes_by_tags be tags c s = (r, s') \<Longrightarrow> backend_step be cutoff high s s'"
| stats_call: "be_get_stats be s = (r, s') \<Longrightarrow> backend_step be cutoff high s s'"
| exists_call: "be_note_exists be i s = (r, s') \<Longrightarrow> backend_step be cutoff high s s'"
| cleanup_call: "cutoff days \<noteq> None \<Longrightarrow> be_cleanup_old_notes be days s = Some (r, s') \<Longrightarrow> backend_step be cutoff high s s'"

definition backend_page ::
  "('h, 't, 's) database_backend \<Rightarrow> u32 list \<Rightarrow> 's \<Rightarrow> int \<Rightarrow> ('h, 't) stored_note list" where
  "backend_page be tags s c =
     (case fst (be_fetch_notes_by_tags be tags (word_of_int (max 0 c)) s) of Ok ns \<Rightarrow> ns | Err e \<Rightarrow> [])"

definition notes_end :: "int \<Rightarrow> ('h, 't) stored_note list \<Rightarrow> int" where
  "notes_end c ns = foldr (\<lambda>n m. max (note_key n) m) ns c"

lemma notes_end_simps [simp]:
  "notes_end c [] = c" "notes_end c (n # ns) = max (note_key n) (notes_end c ns)"
  by (simp_all add: notes_end_def)

lemma notes_end_ge: "c \<le> notes_end c ns"
  by (induction ns) auto

lemma notes_end_note: "n \<in> set ns \<Longrightarrow> note_key n \<le> notes_end c ns"
  by (induction ns) auto

lemma notes_end_in: "notes_end c ns = c \<or> (\<exists>n \<in> set ns. notes_end c ns = note_key n)"
  by (induction ns) (auto simp: max_def)

section \<open>The contract of the reader\<close>

context note_store
begin

lemma page_of_log:
  assumes "invar s"
  shows "backend_page be tags s c =
    take 500 (filter (\<lambda>n. note_tag x n \<in> set tags \<and> cursor_value (word_of_int (max 0 c)) < note_key n) (log s))"
  using fetch_tags [OF assms, of tags "word_of_int (max 0 c)"] by (auto simp: backend_page_def)

lemma step_log:
  assumes "invar s" and "backend_step be cutoff high s s'"
  shows "invar s' \<and> high s \<le> high s' \<and> (\<forall>n \<in> set (log s'). n \<in> set (log s) \<or> high s < note_key n)"
  using assms(2)
proof cases
  case (store_call n r)
  show ?thesis
  proof (cases "note_id x n \<in> note_id x ` set (log s)")
    case True
    then show ?thesis
      using store_known [OF assms(1), of n] store_call by auto
  next
    case False
    then obtain s1 where s1: "be_store_note be n s = (Ok (), s1)" "invar s1" "high s1 = high s + 1"
        "log s1 = log s @ [stamped x (high s + 1) n]"
      using store_new [OF assms(1)] store_call(1) by blast
    have "sint (word_of_int (high s + 1) :: i64) = high s + 1"
      using high_nonneg [OF assms(1)] store_call(1) by (intro sint_word_of_int_i64) auto
    then have "note_key (stamped x (high s + 1) n) = high s + 1"
      by (simp add: stamped_def del: of_int_add)
    then show ?thesis
      using s1 store_call(2) by auto
  qed
next
  case (fetch_call tags c r)
  then show ?thesis
    using fetch_tags [OF assms(1), of tags c] by auto
next
  case (stats_call r)
  then show ?thesis
    using get_stats [OF assms(1)] by auto
next
  case (exists_call i r)
  then show ?thesis
    using note_exists [OF assms(1), of i] by auto
next
  case (cleanup_call days r)
  then show ?thesis
    using cleanup [OF assms(1), of days] by auto
qed

end

sublocale note_store \<subseteq> reader: cursor_log invar log note_key high "backend_step be cutoff high"
    "\<lambda>n. note_tag x n \<in> set tags" "backend_page be tags" notes_end 1000000000000 500 for tags
proof unfold_locales
  fix s c
  assume s: "invar s"
  show "sorted_wrt (<) (map note_key (log s))"
    by (rule log_sorted [OF s])
  show "note_key n \<le> high s" if "n \<in> set (log s)" for n
    using log_keys [OF s that] by simp
  show "set (backend_page be tags s c) \<subseteq> set (log s)"
    unfolding page_of_log [OF s] by (auto dest: in_set_takeD)
  show "backend_page be tags s c = take 500 (filter (\<lambda>n. note_tag x n \<in> set tags \<and> c < note_key n) (log s))"
    if "c \<le> 1000000000000" for c
  proof -
    have "cursor_value (word_of_int (max 0 c)) = max 0 c"
      using that by (simp add: cursor_value_def legacy_threshold_uint uint_word_of_int_eq take_bit_int_eq_self)
    then have "filter (\<lambda>n. note_tag x n \<in> set tags \<and> cursor_value (word_of_int (max 0 c)) < note_key n) (log s) =
        filter (\<lambda>n. note_tag x n \<in> set tags \<and> c < note_key n) (log s)"
      using log_keys [OF s] by (intro filter_cong) auto
    then show ?thesis
      unfolding page_of_log [OF s] by simp
  qed
  show "invar s'" "high s \<le> high s'" if "backend_step be cutoff high s s'" for s'
    using step_log [OF s that] by auto
  show "n \<in> set (log s)" if "backend_step be cutoff high s s'" "n \<in> set (log s')" "note_key n \<le> high s" for s' n
    using step_log [OF s that(1)] that(2,3) by force
qed (use notes_end_in in \<open>auto intro: notes_end_ge notes_end_note\<close>)

section \<open>Reading the connected database\<close>

text \<open>
  On the database \<open>connect\<close> returns, a reader that moves its cursor to the end of each page has every
  note of its tags that is still stored up to its cursor, each once and in the order of the numbers,
  whatever calls lie between its reads.
\<close>

lemma database_reads_exactly_once:
  assumes "codec_ok x" "clock_ok x" and "database_connect x no_faults now files create build config = (Ok db, files')"
    and "cursor_run (backend_step (dbs_backend db) (sqlite_cutoff x now) sqlite_high) (backend_page (dbs_backend db) tags) notes_end
      (empty_table, tel) 0 s c got"
    and "c \<le> 1000000000000"
  shows "sorted_wrt (<) (map note_key got)
    \<and> (\<forall>n \<in> set got. note_tag x n \<in> set tags \<and> 0 < note_key n \<and> note_key n \<le> c)
    \<and> (\<forall>n \<in> set (sqlite_log x s). note_tag x n \<in> set tags \<longrightarrow> note_key n \<le> c \<longrightarrow> n \<in> set got)"
proof -
  have db: "dbs_backend db = sqlite_backend x no_faults now"
    using assms(3) by (auto simp: database_connect_def Let_def res_bind_Ok_iff split: prod.splits)
  note run = assms(4) [unfolded db]
  have inv: "sqlite_invar x (empty_table, tel)" "0 \<le> sqlite_high (empty_table, tel)"
    using assms(1,2) db_ok_empty by (simp_all add: empty_table_def)
  have "0 < note_key n" if "n \<in> set (sqlite_log x s)" for n
    using sqlite.log_keys [OF sqlite.reader.run_invar [OF run inv(1)] that] by simp
  then show ?thesis
    using sqlite.reader.run_sorted [OF run inv(1) assms(5)] sqlite.reader.run_complete [OF run inv assms(5)] by simp
qed

end
