(* ===== verification/Scenarios.thy ===== *)
theory Scenarios
  imports Database Maintenance "HOL-Library.Monad_Syntax"
begin

text \<open>
  The unit tests of the database (the test modules of crates/node/src/database/mod.rs) as programs
  in the option monad: an \<open>unwrap\<close> of an error and an assertion that does not hold end in \<open>None\<close>.
  They are run against the contract of a backend, and so pass on every backend that keeps it; the
  test for the cleanup task, the row conversions and the request limits follow in their theories.

  Headers are made by the miden-protocol crate with random identifiers; a test takes them, and
  what its statement needs of them is that they differ and carry their tag.
\<close>

section \<open>The vocabulary of the tests\<close>

definition unwrap :: "('a, 'e) result \<times> 's \<Rightarrow> ('a \<times> 's) option" where
  "unwrap r = (case r of (Ok a, s) \<Rightarrow> Some (a, s) | (Err e, s) \<Rightarrow> None)"

definition assert_that :: "bool \<Rightarrow> unit option" where
  "assert_that b = (if b then Some () else None)"

definition TAG_LOCAL_ANY :: u32 where
  "TAG_LOCAL_ANY = 0xc0000000"

definition test_note :: "'h \<Rightarrow> bytes \<Rightarrow> 't \<Rightarrow> u32 option \<Rightarrow> ('h, 't) stored_note" where
  "test_note h details created_at b =
     \<lparr>sn_header = h, sn_details = details, sn_created_at = created_at, sn_seq = 0, sn_after_block_num = b\<rparr>"

text \<open>\<open>.max()\<close> of an iterator over \<open>u64::try_from(n.seq).unwrap()\<close>.\<close>

definition iter_max :: "u64 list \<Rightarrow> u64 option" where
  "iter_max xs = (case xs of [] \<Rightarrow> None | y # ys \<Rightarrow> Some (foldl max y ys))"

definition seqs_of :: "('h, 't) stored_note list \<Rightarrow> u64 list option" where
  "seqs_of ns = those (map (\<lambda>n. u64_try_i64 (sn_seq n)) ns)"

fun store_all :: "('h, 't, 's) database \<Rightarrow> ('h, 't) stored_note list \<Rightarrow> 's \<Rightarrow> 's option" where
  "store_all db [] s = Some s"
| "store_all db (n # ns) s = do { (_, s) \<leftarrow> unwrap (database_store_note db n s); store_all db ns s }"

section \<open>The tests\<close>

definition test_sqlite_database ::
  "('h, 't) extern \<Rightarrow> ('h, 't, 's) database \<Rightarrow> 'h \<Rightarrow> 't \<Rightarrow> 's \<Rightarrow> unit option" where
  "test_sqlite_database x db header now s = do {
     let note = test_note header [1, 2, 3, 4] now None;
     (_, s) \<leftarrow> unwrap (database_store_note db note s);
     (fetched_notes, s) \<leftarrow> unwrap (database_fetch_notes db TAG_LOCAL_ANY 0 s);
     assert_that (length fetched_notes = 1);
     assert_that (note_id x (fetched_notes ! 0) = note_id x note);
     assert_that (0 < note_key (fetched_notes ! 0));
     (stored, s) \<leftarrow> unwrap (database_note_exists db (note_id x note) s);
     assert_that stored;
     ((total_notes, total_tags), s) \<leftarrow> unwrap (database_get_stats db s);
     assert_that (total_notes = 1);
     assert_that (total_tags = 1)
   }"

definition test_seq_assigned_monotonically_in_insert_order ::
  "('h, 't, 's) database \<Rightarrow> 'h \<Rightarrow> 'h \<Rightarrow> 't \<Rightarrow> 't \<Rightarrow> 's \<Rightarrow> unit option" where
  "test_seq_assigned_monotonically_in_insert_order db h1 h2 t1 t2 s = do {
     (_, s) \<leftarrow> unwrap (database_store_note db (test_note h1 [1] t1 None) s);
     (_, s) \<leftarrow> unwrap (database_store_note db (test_note h2 [2] t2 None) s);
     (fetched, s) \<leftarrow> unwrap (database_fetch_notes db TAG_LOCAL_ANY 0 s);
     assert_that (length fetched = 2);
     assert_that (note_key (fetched ! 0) < note_key (fetched ! 1));
     assert_that (sn_details (fetched ! 0) = [1]);
     assert_that (sn_details (fetched ! 1) = [2]);
     mid_cursor \<leftarrow> u64_try_i64 (sn_seq (fetched ! 0));
     (after_first, s) \<leftarrow> unwrap (database_fetch_notes db TAG_LOCAL_ANY mid_cursor s);
     assert_that (length after_first = 1);
     assert_that (sn_details (after_first ! 0) = [2])
   }"

text \<open>The writers commit in any order \<open>order\<close>; writer \<open>i\<close> has the header \<open>h i\<close> and the time \<open>t i\<close>.\<close>

definition TEST_TAG_A :: u32 where "TEST_TAG_A = 0x3d9c0000"
definition TEST_TAG_B :: u32 where "TEST_TAG_B = 0x47ac0000"

definition test_concurrent_store_fetch_sees_all_rows ::
  "('h, 't, 's) database \<Rightarrow> (nat \<Rightarrow> 'h) \<Rightarrow> (nat \<Rightarrow> 't) \<Rightarrow> nat list \<Rightarrow> 's \<Rightarrow> unit option" where
  "test_concurrent_store_fetch_sees_all_rows db h t order s = do {
     s \<leftarrow> store_all db (map (\<lambda>i. test_note (h i) [of_nat i] (t i) None) order) s;
     (fetched_a, s) \<leftarrow> unwrap (database_fetch_notes db TEST_TAG_A 0 s);
     (fetched_b, s) \<leftarrow> unwrap (database_fetch_notes db TEST_TAG_B 0 s);
     assert_that (length fetched_a + length fetched_b = 40);
     ((total, _), s) \<leftarrow> unwrap (database_get_stats db s);
     assert_that (total = 40)
   }"

definition test_fetch_notes_seq_cursor_filtering ::
  "('h, 't, 's) database \<Rightarrow> 'h \<Rightarrow> 't \<Rightarrow> 's \<Rightarrow> unit option" where
  "test_fetch_notes_seq_cursor_filtering db header now s = do {
     (_, s) \<leftarrow> unwrap (database_store_note db (test_note header [1, 2, 3, 4] now None) s);
     (fetched, s) \<leftarrow> unwrap (database_fetch_notes db TAG_LOCAL_ANY 0 s);
     assert_that (length fetched = 1);
     assert_that (0 < note_key (fetched ! 0));
     cursor \<leftarrow> u64_try_i64 (sn_seq (fetched ! 0));
     (after, s) \<leftarrow> unwrap (database_fetch_notes db TAG_LOCAL_ANY cursor s);
     assert_that (length after = 0)
   }"

definition test_seq_cursor_survives_identical_created_at ::
  "('h, 't, 's) database \<Rightarrow> 'h \<Rightarrow> 'h \<Rightarrow> 't \<Rightarrow> 's \<Rightarrow> unit option" where
  "test_seq_cursor_survives_identical_created_at db h1 h2 t s = do {
     (_, s) \<leftarrow> unwrap (database_store_note db (test_note h1 [1] t None) s);
     (first, s) \<leftarrow> unwrap (database_fetch_notes db TAG_LOCAL_ANY 0 s);
     assert_that (length first = 1);
     cursor \<leftarrow> u64_try_i64 (sn_seq (first ! 0));
     (_, s) \<leftarrow> unwrap (database_store_note db (test_note h2 [2] t None) s);
     (second, s) \<leftarrow> unwrap (database_fetch_notes db TAG_LOCAL_ANY cursor s);
     assert_that (length second = 1);
     assert_that (sn_details (second ! 0) = [2])
   }"

definition test_multi_tag_single_snapshot_vs_per_tag_loop ::
  "('h, 't, 's) database \<Rightarrow> 'h \<Rightarrow> 'h \<Rightarrow> 'h \<Rightarrow> 't \<Rightarrow> 't \<Rightarrow> 't \<Rightarrow> 's \<Rightarrow> unit option" where
  "test_multi_tag_single_snapshot_vs_per_tag_loop db h1 h2 h3 t1 t2 t3 s = do {
     (_, s) \<leftarrow> unwrap (database_store_note db (test_note h1 [1] t1 None) s);
     (a_result, s) \<leftarrow> unwrap (database_fetch_notes db TEST_TAG_A 0 s);
     assert_that (length a_result = 1);
     (_, s) \<leftarrow> unwrap (database_store_note db (test_note h2 [2] t2 None) s);
     (_, s) \<leftarrow> unwrap (database_store_note db (test_note h3 [3] t3 None) s);
     (b_result, s) \<leftarrow> unwrap (database_fetch_notes db TEST_TAG_B 0 s);
     assert_that (length b_result = 1);
     seqs \<leftarrow> seqs_of (a_result @ b_result);
     let rcursor = (case iter_max seqs of Some m \<Rightarrow> m | None \<Rightarrow> 0);
     (retry_a, s) \<leftarrow> unwrap (database_fetch_notes db TEST_TAG_A rcursor s);
     (retry_b, s) \<leftarrow> unwrap (database_fetch_notes db TEST_TAG_B rcursor s);
     assert_that (length a_result + length b_result + length retry_a + length retry_b = 2);
     assert_that (\<not> list_ex (\<lambda>n. sn_details n = [2]) retry_a);
     (snapshot, s) \<leftarrow> unwrap (database_fetch_notes_by_tags db [TEST_TAG_A, TEST_TAG_B] 0 s);
     assert_that (length snapshot = 3);
     assert_that (list_ex (\<lambda>n. sn_details n = [2]) snapshot)
   }"

definition test_fetch_notes_resets_legacy_cursor ::
  "('h, 't, 's) database \<Rightarrow> 'h \<Rightarrow> 't \<Rightarrow> 's \<Rightarrow> unit option" where
  "test_fetch_notes_resets_legacy_cursor db header now s = do {
     (_, s) \<leftarrow> unwrap (database_store_note db (test_note header [1, 2, 3, 4] now None) s);
     (fetched, s) \<leftarrow> unwrap (database_fetch_notes db TAG_LOCAL_ANY 1760000000000000 s);
     assert_that (length fetched = 1);
     (empty, s) \<leftarrow> unwrap (database_fetch_notes db TAG_LOCAL_ANY 1000 s);
     assert_that (length empty = 0)
   }"

definition test_fetch_notes_paginates_at_batch_limit ::
  "('h, 't, 's) database \<Rightarrow> (nat \<Rightarrow> 'h) \<Rightarrow> (nat \<Rightarrow> 't) \<Rightarrow> 's \<Rightarrow> unit option" where
  "test_fetch_notes_paginates_at_batch_limit db h t s = do {
     let extra = 7;
     let total = nat (sint FETCH_NOTES_BATCH_SIZE) + extra;
     s \<leftarrow> store_all db (map (\<lambda>i. test_note (h i) [of_nat (i mod 256)] (t i) None) [0..<total]) s;
     (first, s) \<leftarrow> unwrap (database_fetch_notes db TAG_LOCAL_ANY 0 s);
     batch \<leftarrow> i64_try_usize (length first);
     assert_that (batch = FETCH_NOTES_BATCH_SIZE);
     seqs \<leftarrow> seqs_of first;
     advanced \<leftarrow> iter_max seqs;
     (second, s) \<leftarrow> unwrap (database_fetch_notes db TAG_LOCAL_ANY advanced s);
     assert_that (length second = extra);
     seqs \<leftarrow> seqs_of second;
     let third_cursor = (case iter_max seqs of Some m \<Rightarrow> m | None \<Rightarrow> advanced);
     (third, s) \<leftarrow> unwrap (database_fetch_notes db TAG_LOCAL_ANY third_cursor s);
     assert_that (length third = 0);
     ((total_stats, _), s) \<leftarrow> unwrap (database_get_stats db s);
     assert_that (unat total_stats = total)
   }"

definition test_block_context_round_trips_through_store_and_fetch ::
  "('h, 't) extern \<Rightarrow> ('h, 't, 's) database \<Rightarrow> 'h \<Rightarrow> 'h \<Rightarrow> 't \<Rightarrow> 't \<Rightarrow> 's \<Rightarrow> unit option" where
  "test_block_context_round_trips_through_store_and_fetch x db h1 h2 t1 t2 s = do {
     (_, s) \<leftarrow> unwrap (database_store_note db (test_note h1 [10, 20, 30] t1 (Some 12345)) s);
     (fetched, s) \<leftarrow> unwrap (database_fetch_notes db TAG_LOCAL_ANY 0 s);
     assert_that (length fetched = 1);
     assert_that (sn_after_block_num (fetched ! 0) = Some 12345);
     assert_that (tn_after_block_num (transport_of_stored x (fetched ! 0)) = Some 12345);
     (_, s) \<leftarrow> unwrap (database_store_note db (test_note h2 [99] t2 (Some 4294967295)) s);
     (all, s) \<leftarrow> unwrap (database_fetch_notes db TAG_LOCAL_ANY 0 s);
     max_note \<leftarrow> find (\<lambda>n. sn_details n = [99]) all;
     assert_that (sn_after_block_num max_note = Some 4294967295)
   }"

section \<open>Running a test against the contract\<close>

text \<open>The page a fetch returns from a log.\<close>

definition log_page :: "('h, 't) extern \<Rightarrow> u32 list \<Rightarrow> u64 \<Rightarrow> ('h, 't) stored_note list \<Rightarrow> ('h, 't) stored_note list" where
  "log_page x tags c L = take 500 (filter (\<lambda>n. note_tag x n \<in> set tags \<and> cursor_value c < note_key n) L)"

lemma test_note_simps [simp]:
  "sn_header (test_note h d t b) = h" "sn_details (test_note h d t b) = d"
  "sn_after_block_num (test_note h d t b) = b"
  by (simp_all add: test_note_def)

lemma stamped_simps [simp]:
  "sn_header (stamped x k n) = sn_header n" "sn_details (stamped x k n) = sn_details n"
  "sn_seq (stamped x k n) = word_of_int k" "sn_after_block_num (stamped x k n) = sn_after_block_num n"
  by (simp_all add: stamped_def)

lemma assert_bind: "b \<Longrightarrow> F () = Some r \<Longrightarrow> (assert_that b \<bind> F) = Some r"
  by (simp add: assert_that_def)

lemma assert_last: "b \<Longrightarrow> assert_that b = Some ()"
  by (simp add: assert_that_def)

lemma u64_bind: "0 \<le> sint w \<Longrightarrow> F w = Some r \<Longrightarrow> (u64_try_i64 w \<bind> F) = Some r"
  by (simp add: u64_try_i64_def)

lemma find_bind: "find P xs = Some a \<Longrightarrow> F a = Some r \<Longrightarrow> (find P xs \<bind> F) = Some r"
  by simp

lemma seqs_bind: "(\<forall>n \<in> set ns. 0 \<le> note_key n) \<Longrightarrow> F (map sn_seq ns) = Some r \<Longrightarrow> (seqs_of ns \<bind> F) = Some r"
proof -
  assume a: "\<forall>n \<in> set ns. 0 \<le> note_key n" "F (map sn_seq ns) = Some r"
  have "seqs_of ns = Some (map sn_seq ns)"
    using a(1) by (induction ns) (simp_all add: seqs_of_def u64_try_i64_def)
  then show ?thesis
    using a(2) by simp
qed

text \<open>What a loop of stores appends.\<close>

fun stamped_all :: "('h, 't) extern \<Rightarrow> int \<Rightarrow> ('h, 't) stored_note list \<Rightarrow> ('h, 't) stored_note list" where
  "stamped_all x k [] = []"
| "stamped_all x k (n # ns) = stamped x (k + 1) n # stamped_all x (k + 1) ns"

lemma stamped_all_append: "stamped_all x k (ns @ ms) = stamped_all x k ns @ stamped_all x (k + int (length ns)) ms"
  by (induction ns arbitrary: k) (simp_all add: ac_simps)

lemma stamped_all_simps [simp]:
  "length (stamped_all x k ns) = length ns"
  "map sn_header (stamped_all x k ns) = map sn_header ns"
  by (induction ns arbitrary: k) simp_all

lemma stamped_all_header: "n \<in> set (stamped_all x k ns) \<Longrightarrow> sn_header n \<in> sn_header ` set ns"
  using stamped_all_simps(2) [of x k ns] by (metis image_eqI list.set_map)

lemma stamped_all_key:
  "0 \<le> k \<Longrightarrow> k + int (length ns) < 2 ^ 63 \<Longrightarrow> n \<in> set (stamped_all x k ns) \<Longrightarrow>
     k < note_key n \<and> note_key n \<le> k + int (length ns)"
proof (induction ns arbitrary: k)
  case Nil
  then show ?case by simp
next
  case (Cons m ns)
  have "sint (word_of_int (k + 1) :: i64) = k + 1"
    using Cons.prems by (intro sint_word_of_int_i64) auto
  then show ?case
    using Cons.IH [of "k + 1"] Cons.prems by auto
qed

lemma iter_max_snoc: "iter_max xs = Some m \<Longrightarrow> iter_max (xs @ [y]) = Some (max m y)"
  by (auto simp: iter_max_def split: list.splits)

lemma uint_word_of_int_u64: "0 \<le> m \<Longrightarrow> m < 2 ^ 64 \<Longrightarrow> uint (word_of_int m :: u64) = m"
  by (simp add: uint_word_of_int_eq take_bit_int_eq_self)

lemma iter_max_stamped:
  "ns \<noteq> [] \<Longrightarrow> 0 \<le> k \<Longrightarrow> k + int (length ns) < 2 ^ 63 \<Longrightarrow>
     iter_max (map sn_seq (stamped_all x k ns)) = Some (word_of_int (k + int (length ns)))"
proof (induction ns rule: rev_induct)
  case Nil
  then show ?case by simp
next
  case (snoc n ns)
  show ?case
  proof (cases "ns = []")
    case True
    then show ?thesis
      by (simp add: iter_max_def)
  next
    case False
    let ?m = "k + int (length ns)"
    have "iter_max (map sn_seq (stamped_all x k ns)) = Some (word_of_int ?m)"
      using snoc False by simp
    moreover have "(word_of_int ?m :: u64) \<le> word_of_int (?m + 1)"
      using snoc.prems unfolding word_le_def by (subst (1 2) uint_word_of_int_u64) simp_all
    ultimately show ?thesis
      using iter_max_snoc [of "map sn_seq (stamped_all x k ns)"]
      by (simp add: stamped_all_append max_absorb2 ac_simps)
  qed
qed

lemma filter_tags_all:
  assumes "\<And>n. n \<in> set ns \<Longrightarrow> note_tag x n \<in> set tags \<and> c < note_key n"
  shows "filter (\<lambda>n. note_tag x n \<in> set tags \<and> c < note_key n) ns = ns"
  using assms by (simp add: filter_id_conv)

context note_store
begin

abbreviation "D \<equiv> \<lparr>dbs_backend = be\<rparr>"

text \<open>The backend's state holds the log \<open>L\<close>, with \<open>k\<close> the last number given out.\<close>

definition holds :: "'s \<Rightarrow> ('h, 't) stored_note list \<Rightarrow> int \<Rightarrow> bool" where
  "holds s L k \<longleftrightarrow> invar s \<and> log s = L \<and> high s = k"

lemma store_bind:
  assumes "holds s L k" and "note_id x n \<notin> note_id x ` set L" and "k < 2 ^ 63 - 1"
    and "\<And>s'. holds s' (L @ [stamped x (k + 1) n]) (k + 1) \<Longrightarrow> F () s' = Some r"
  shows "(unwrap (database_store_note D n s) \<bind> (\<lambda>(u, s'). F u s')) = Some r"
proof -
  obtain s' where "be_store_note be n s = (Ok (), s')" "holds s' (L @ [stamped x (k + 1) n]) (k + 1)"
    using store_new [of s n] assms(1-3) unfolding holds_def by auto
  then show ?thesis
    using assms(4) by (simp add: database_store_note_def unwrap_def)
qed

lemma fetch_tags_bind:
  assumes "holds s L k" and "\<And>s'. holds s' L k \<Longrightarrow> F (log_page x tags c L) s' = Some r"
  shows "(unwrap (database_fetch_notes_by_tags D tags c s) \<bind> (\<lambda>(ns, s'). F ns s')) = Some r"
proof -
  obtain s' where "be_fetch_notes_by_tags be tags c s = (Ok (log_page x tags c L), s')" "holds s' L k"
    using fetch_tags [of s tags c] assms(1) unfolding holds_def log_page_def by auto
  then show ?thesis
    using assms(2) by (simp add: database_fetch_notes_by_tags_def unwrap_def)
qed

lemma fetch_bind:
  assumes "holds s L k" and "\<And>s'. holds s' L k \<Longrightarrow> F (log_page x [t] c L) s' = Some r"
  shows "(unwrap (database_fetch_notes D t c s) \<bind> (\<lambda>(ns, s'). F ns s')) = Some r"
proof -
  have "database_fetch_notes D t c s = database_fetch_notes_by_tags D [t] c s"
    by (simp add: database_fetch_notes_def database_fetch_notes_by_tags_def fetch_tag)
  with fetch_tags_bind [of s L k F "[t]" c r, OF assms] show ?thesis
    by simp
qed

lemma exists_bind:
  assumes "holds s L k" and "\<And>s'. holds s' L k \<Longrightarrow> F (i \<in> note_id x ` set L) s' = Some r"
  shows "(unwrap (database_note_exists D i s) \<bind> (\<lambda>(b, s'). F b s')) = Some r"
proof -
  obtain s' where "be_note_exists be i s = (Ok (i \<in> note_id x ` set L), s')" "holds s' L k"
    using note_exists [of s i] assms(1) unfolding holds_def by auto
  then show ?thesis
    using assms(2) by (simp add: database_note_exists_def unwrap_def)
qed

lemma stats_bind:
  assumes "holds s L k"
    and "\<And>s' n m. holds s' L k \<Longrightarrow> n = word_of_nat (length L) \<Longrightarrow> m = word_of_nat (card (note_tag x ` set L)) \<Longrightarrow>
      F n m s' = Some r"
  shows "(unwrap (database_get_stats D s) \<bind> (\<lambda>((n, m), s'). F n m s')) = Some r"
proof -
  obtain n m s' where g: "be_get_stats be s = (Ok (n, m), s')" "uint n = int (length L)"
      "uint m = int (card (note_tag x ` set L))" "holds s' L k"
    using get_stats [of s] assms(1) unfolding holds_def by auto
  then have "n = word_of_nat (length L)" "m = word_of_nat (card (note_tag x ` set L))"
    by (metis of_int_of_nat_eq word_of_int_uint)+
  then show ?thesis
    using assms(2) [OF g(4)] g(1) by (simp add: database_get_stats_def unwrap_def)
qed

lemmas test_steps = store_bind fetch_bind fetch_tags_bind exists_bind stats_bind assert_bind u64_bind seqs_bind find_bind assert_last

text \<open>
  The tests without a loop, each step by the rule of its method, each assertion by evaluation on
  the log the contract says the backend holds.
\<close>

lemmas test_eval = log_page_def cursor_value_def LEGACY_CURSOR_THRESHOLD_def TAG_LOCAL_ANY_def
  TEST_TAG_A_def TEST_TAG_B_def iter_max_def transport_of_stored_def

lemmas simple_tests =
  test_sqlite_database_def test_seq_assigned_monotonically_in_insert_order_def
  test_fetch_notes_seq_cursor_filtering_def test_seq_cursor_survives_identical_created_at_def
  test_fetch_notes_resets_legacy_cursor_def test_block_context_round_trips_through_store_and_fetch_def

lemma simple_tests_pass:
  assumes "holds s [] 0" and "hdr_tag x h1 = TAG_LOCAL_ANY" "hdr_tag x h2 = TAG_LOCAL_ANY" and "hdr_id x h1 \<noteq> hdr_id x h2"
  shows "test_sqlite_database x D h1 t1 s = Some ()"
    and "test_seq_assigned_monotonically_in_insert_order D h1 h2 t1 t2 s = Some ()"
    and "test_fetch_notes_seq_cursor_filtering D h1 t1 s = Some ()"
    and "test_seq_cursor_survives_identical_created_at D h1 h2 t1 s = Some ()"
    and "test_fetch_notes_resets_legacy_cursor D h1 t1 s = Some ()"
    and "test_block_context_round_trips_through_store_and_fetch x D h1 h2 t1 t2 s = Some ()"
  using assms unfolding simple_tests Let_def
  by - (rule test_steps; (assumption)?; (simp add: test_eval; fail)?)+

lemma multi_tag_test_passes:
  assumes "holds s [] 0" and "hdr_tag x h1 = TEST_TAG_A" "hdr_tag x h2 = TEST_TAG_A" "hdr_tag x h3 = TEST_TAG_B"
    and "hdr_id x h1 \<noteq> hdr_id x h2" "hdr_id x h1 \<noteq> hdr_id x h3" "hdr_id x h2 \<noteq> hdr_id x h3"
  shows "test_multi_tag_single_snapshot_vs_per_tag_loop D h1 h2 h3 t1 t2 t3 s = Some ()"
  using assms unfolding test_multi_tag_single_snapshot_vs_per_tag_loop_def Let_def
  by - (rule test_steps; (assumption)?; (simp add: test_eval; fail)?)+

lemma store_all_bind:
  assumes "holds s L k" and "distinct (map (note_id x) ns)"
    and "\<And>n. n \<in> set ns \<Longrightarrow> note_id x n \<notin> note_id x ` set L" and "k + int (length ns) < 2 ^ 63"
    and "\<And>s'. holds s' (L @ stamped_all x k ns) (k + int (length ns)) \<Longrightarrow> F s' = Some r"
  shows "(store_all D ns s \<bind> F) = Some r"
  using assms
proof (induction ns arbitrary: s L k)
  case Nil
  then show ?case by simp
next
  case (Cons n ns)
  have "(unwrap (database_store_note D n s) \<bind> (\<lambda>(u, s). store_all D ns s \<bind> F)) = Some r"
  proof (rule store_bind [OF Cons.prems(1)])
    fix s'
    assume s': "holds s' (L @ [stamped x (k + 1) n]) (k + 1)"
    show "(store_all D ns s' \<bind> F) = Some r"
    proof (rule Cons.IH [OF s'])
      show "F s'' = Some r"
        if "holds s'' ((L @ [stamped x (k + 1) n]) @ stamped_all x (k + 1) ns) (k + 1 + int (length ns))" for s''
        using Cons.prems(5) [of s''] that by (simp add: ac_simps)
      show "note_id x m \<notin> note_id x ` set (L @ [stamped x (k + 1) n])" if "m \<in> set ns" for m
      proof -
        have "note_id x m \<in> note_id x ` set ns" "note_id x n \<notin> note_id x ` set ns"
          using Cons.prems(2) that by auto
        then have "note_id x m \<noteq> note_id x n"
          by metis
        then show ?thesis
          using Cons.prems(3) [of m] that by simp
      qed
    qed (use Cons.prems in auto)
  qed (use Cons.prems in auto)
  then show ?case
    by (simp add: case_prod_unfold)
qed

text \<open>Writers in any order: the pages of the two tags split the log.\<close>

lemma concurrent_test_passes:
  assumes h: "holds s [] 0" and order: "distinct order" "set order = {0..<40}"
    and ids: "inj_on (\<lambda>i. hdr_id x (h i)) {0..<40}"
    and tags: "\<And>i. i < 40 \<Longrightarrow> hdr_tag x (h i) = (if even i then TEST_TAG_A else TEST_TAG_B)"
  shows "test_concurrent_store_fetch_sees_all_rows D h t order s = Some ()"
proof -
  let ?ns = "map (\<lambda>i. test_note (h i) [of_nat i] (t i) None) order"
  let ?L = "stamped_all x 0 ?ns"
  have len: "length order = 40"
    using order by (metis card_atLeastLessThan diff_zero distinct_card)
  have key: "0 < note_key n" if "n \<in> set ?L" for n
    using stamped_all_key [of 0 ?ns n x] that len by simp
  have tag: "note_tag x n = TEST_TAG_B \<longleftrightarrow> note_tag x n \<noteq> TEST_TAG_A" if n: "n \<in> set ?L" for n
  proof -
    obtain i where "i \<in> set order" "sn_header n = h i"
      using stamped_all_header [OF n] unfolding set_map image_image test_note_simps by blast
    then show ?thesis
      using tags [of i] order(2) by (auto simp: TEST_TAG_A_def TEST_TAG_B_def)
  qed
  have p: "log_page x [TEST_TAG_A] 0 ?L = filter (\<lambda>n. note_tag x n = TEST_TAG_A) ?L"
    "log_page x [TEST_TAG_B] 0 ?L = filter (\<lambda>n. note_tag x n \<noteq> TEST_TAG_A) ?L"
  proof -
    have short: "take 500 (filter P ?L) = filter P ?L" for P
      using length_filter_le [of P ?L] len by simp
    show "log_page x [TEST_TAG_A] 0 ?L = filter (\<lambda>n. note_tag x n = TEST_TAG_A) ?L"
      "log_page x [TEST_TAG_B] 0 ?L = filter (\<lambda>n. note_tag x n \<noteq> TEST_TAG_A) ?L"
      unfolding log_page_def short using key tag by (auto simp: cursor_value_def LEGACY_CURSOR_THRESHOLD_def intro!: filter_cong)
  qed
  have l: "length (log_page x [TEST_TAG_A] 0 ?L) + length (log_page x [TEST_TAG_B] 0 ?L) = 40"
    unfolding p using sum_length_filter_compl [of "\<lambda>n. note_tag x n = TEST_TAG_A" ?L] len by simp
  have d: "distinct (map (note_id x) ?ns)"
    using ids order by (simp add: comp_def distinct_map)
  show ?thesis
    unfolding test_concurrent_store_fetch_sees_all_rows_def
  proof (rule store_all_bind [OF h d])
    fix s'
    assume s': "holds s' ([] @ ?L) (0 + int (length ?ns))"
    show "(unwrap (database_fetch_notes D TEST_TAG_A 0 s') \<bind> (\<lambda>(fetched_a, s).
        unwrap (database_fetch_notes D TEST_TAG_B 0 s) \<bind> (\<lambda>(fetched_b, s).
          assert_that (length fetched_a + length fetched_b = 40) \<bind>
          (\<lambda>_. unwrap (database_get_stats D s) \<bind> (\<lambda>((total, uu), s). assert_that (total = 40)))))) = Some ()"
      by (rule fetch_bind [OF s'], rule fetch_bind, assumption, rule assert_bind)
        (use l in simp, rule stats_bind, assumption, simp add: assert_that_def len)
  qed (use len in simp_all)
qed

text \<open>The log of 507 notes, read page by page.\<close>

lemma pagination_test_passes:
  assumes h: "holds s [] 0" and ids: "inj_on (\<lambda>i. hdr_id x (h i)) {0..<507}"
    and tags: "\<And>i. i < 507 \<Longrightarrow> hdr_tag x (h i) = TAG_LOCAL_ANY"
  shows "test_fetch_notes_paginates_at_batch_limit D h t s = Some ()"
proof -
  define ns where "ns = map (\<lambda>i. test_note (h i) [of_nat (i mod 256)] (t i) None) [0..<507]"
  define A where "A = stamped_all x 0 (take 500 ns)"
  define B where "B = stamped_all x 500 (drop 500 ns)"
  have len: "length ns = 507"
    by (simp add: ns_def)
  have L: "stamped_all x 0 ns = A @ B"
    using stamped_all_append [of x 0 "take 500 ns" "drop 500 ns"] len by (simp add: A_def B_def)
  have keys: "n \<in> set A \<Longrightarrow> 0 < note_key n \<and> note_key n \<le> 500" "n \<in> set B \<Longrightarrow> 500 < note_key n \<and> note_key n \<le> 507" for n
    using stamped_all_key [of 0 "take 500 ns" n x] stamped_all_key [of 500 "drop 500 ns" n x] len
    by (simp_all add: A_def B_def)
  have tag: "note_tag x n = TAG_LOCAL_ANY" if "n \<in> set (A @ B)" for n
    using stamped_all_header [of n x 0 ns] that tags unfolding L by (auto simp: ns_def)
  have lens: "length A = 500" "length B = 7"
    using len by (simp_all add: A_def B_def)
  have m: "iter_max (map sn_seq A) = Some 500" "iter_max (map sn_seq B) = Some 507"
    using iter_max_stamped [of "take 500 ns" 0 x] iter_max_stamped [of "drop 500 ns" 500 x] len
    by (force simp: A_def B_def)+
  have pages: "log_page x [TAG_LOCAL_ANY] 0 (A @ B) = A" "log_page x [TAG_LOCAL_ANY] 500 (A @ B) = B"
    "log_page x [TAG_LOCAL_ANY] 507 (A @ B) = []"
  proof -
    have f: "log_page x [TAG_LOCAL_ANY] c (A @ B) =
        take 500 (filter (\<lambda>n. cursor_value c < note_key n) A @ filter (\<lambda>n. cursor_value c < note_key n) B)" for c
      unfolding log_page_def filter_append [symmetric] using tag
      by (intro arg_cong [where f = "take 500"] filter_cong) auto
    have v: "cursor_value 0 = 0" "cursor_value 500 = 500" "cursor_value 507 = 507"
      by (simp_all add: cursor_value_def LEGACY_CURSOR_THRESHOLD_def)
    have "filter (\<lambda>n. 0 < note_key n) A = A" "filter (\<lambda>n. 500 < note_key n) A = []"
      "filter (\<lambda>n. 507 < note_key n) A = []" "filter (\<lambda>n. 500 < note_key n) B = B" "filter (\<lambda>n. 507 < note_key n) B = []"
      using keys by (force simp: filter_id_conv filter_empty_conv)+
    then show "log_page x [TAG_LOCAL_ANY] 0 (A @ B) = A" "log_page x [TAG_LOCAL_ANY] 500 (A @ B) = B"
      "log_page x [TAG_LOCAL_ANY] 507 (A @ B) = []"
      unfolding f v using lens by simp_all
  qed
  have nonneg: "\<forall>n \<in> set A. 0 \<le> note_key n" "\<forall>n \<in> set B. 0 \<le> note_key n"
    using keys by force+
  have d: "distinct (map (note_id x) ns)"
    using ids by (simp add: ns_def comp_def distinct_map)
  have i: "seqs_of A = Some (map sn_seq A)" "seqs_of B = Some (map sn_seq B)"
    using seqs_bind [OF nonneg(1), of Some] seqs_bind [OF nonneg(2), of Some] by simp_all
  have b: "i64_try_usize 500 = Some FETCH_NOTES_BATCH_SIZE"
    by (simp add: i64_try_usize_def FETCH_NOTES_BATCH_SIZE_def)
  have run: "(unwrap (database_fetch_notes D TAG_LOCAL_ANY 0 s') \<bind> (\<lambda>(first, s).
      i64_try_usize (length first) \<bind> (\<lambda>batch. assert_that (batch = FETCH_NOTES_BATCH_SIZE) \<bind> (\<lambda>_.
      seqs_of first \<bind> (\<lambda>seqs. iter_max seqs \<bind> (\<lambda>advanced.
      unwrap (database_fetch_notes D TAG_LOCAL_ANY advanced s) \<bind> (\<lambda>(second, s).
      assert_that (length second = 7) \<bind> (\<lambda>_. seqs_of second \<bind> (\<lambda>seqs.
      unwrap (database_fetch_notes D TAG_LOCAL_ANY (case iter_max seqs of Some m \<Rightarrow> m | None \<Rightarrow> advanced) s) \<bind>
      (\<lambda>(third, s). assert_that (length third = 0) \<bind> (\<lambda>_. unwrap (database_get_stats D s) \<bind>
      (\<lambda>((total_stats, _), s). assert_that (unat total_stats = 507))))))))))))) = Some ()"
    if s': "holds s' (A @ B) 507" for s'
    by (rule fetch_bind [OF s'], simp only: pages lens i m b bind.bind_lunit,
        rule assert_bind [OF refl], rule fetch_bind, assumption,
        simp only: pages lens i m bind.bind_lunit, rule assert_bind [OF refl], simp,
        rule fetch_bind, assumption, simp only: pages list.size, rule assert_bind [OF refl],
        rule stats_bind, assumption, simp add: assert_that_def lens unat_of_nat)
  have st: "holds s' ([] @ stamped_all x 0 ns) (0 + int (length ns)) \<Longrightarrow> holds s' (A @ B) 507" for s'
    using L len by simp
  show ?thesis
    unfolding test_fetch_notes_paginates_at_batch_limit_def Let_def batch_size_nat
    by (simp only: add_num_simps numeral_plus_numeral, fold ns_def, rule store_all_bind [OF h d])
      (simp, simp add: len, rule run, erule st)
qed

end

end
