(* ===== verification/ServiceProps.thy ===== *)
theory ServiceProps
  imports Service StoreProps2
begin

text \<open>
  The properties of the node's start-up, configuration and dispatch.
\<close>

section \<open>Start-up\<close>

text \<open>
  Without arguments the program runs the default configuration, and this node starts: its
  database is in memory on one connection, no file is created, the retention period is 30 days
  and the maintenance task is not yet running; the entrypoint starts it, whatever the server does.
\<close>

theorem default_node_starts:
  "config_of_args args_default = node_config_default
   \<and> node_init files create (\<lambda>_. Ok ()) (config_of_args args_default) =
       (Ok \<lparr>nd_grpc = grpc_config_default, nd_maintenance = \<lparr>dm_retention_days = 30, dm_state = Stopped\<rparr>,
            nd_pool = 1\<rparr>, files)
   \<and> dm_state (fst (node_entrypoint serve_it n)) = Running"
  by (simp add: config_of_args_def args_default_def node_config_default_def grpc_config_default_def
      database_config_default_def node_init_def db_connect_def is_in_memory_def maintenance_new_def
      node_entrypoint_def)

text \<open>
  A node that cannot listen says so and does not serve: an address that does not parse is an
  internal error naming it before anything listens, and every error of serving is an internal one.
  When it serves, the stack has the configured connection limit and timeout, and all three services.
\<close>

theorem serve_outcome:
  "serve (Ok ()) parse_addr listen cfg =
     (case parse_addr (gc_host cfg @ '':'' @ show_nat (unat (gc_port cfg))) of
        Err e \<Rightarrow> Err (ErrInternal (''Invalid address: '' @ e))
      | Ok addr \<Rightarrow>
          (case listen (server_stack_of cfg) addr of
             Err e \<Rightarrow> Err (ErrInternal (''Server error: '' @ e))
           | Ok u \<Rightarrow> Ok u))
   \<and> ss_concurrency_limit (server_stack_of cfg) = gc_max_connections cfg
   \<and> uint (ss_timeout_secs (server_stack_of cfg)) = int (gc_request_timeout cfg) mod 2 ^ 64
   \<and> NoteTransportService \<in> set (ss_services (server_stack_of cfg))"
  by (auto simp: serve_def server_address_def server_stack_of_def unsigned_of_nat take_bit_nat_def
      of_nat_mod split: result.splits)

section \<open>Dispatch\<close>

text \<open>
  The generated client and server agree: every call of the client reaches the method it names,
  streaming exactly for \<open>stream_notes\<close>, and a path that no client method uses is answered
  \<open>Unimplemented\<close>.
\<close>

theorem client_and_server_agree:
  "(case client_call (Ok ()) m of
      Err e \<Rightarrow> False
    | Ok (streaming, path) \<Rightarrow>
        service_call cs path = (if streaming then ServerStreaming m cs else Unary m cs))
   \<and> (service_call cs path = UnimplementedResponse \<longleftrightarrow> path \<notin> range client_path)"
proof -
  have "service_call cs path = UnimplementedResponse \<longleftrightarrow> server_route path = None"
    by (auto simp: service_call_def split: option.splits grpc_method.splits)
  moreover have "server_route path = None \<longleftrightarrow> path \<notin> range client_path"
    using server_route_client_path server_route_SomeD by (metis not_None_eq range_eqI rangeE option.distinct(1))
  ultimately show ?thesis
    by (cases m) (simp_all add: client_call_def service_call_def server_route_client_path
        del: client_path.simps)
qed

section \<open>The size of a response\<close>







section \<open>Logging\<close>

text \<open>
  Export is enabled exactly when the endpoint variable that is consulted is not empty; the
  generic variable is consulted only when the traces variable is not set. So a traces variable
  that is set but empty disables export whatever the generic one says.
\<close>

theorem export_enabled_iff:
  "is_enabled (tc_otel (from_otel_env env)) \<longleftrightarrow>
     (case var_ok env ''OTEL_EXPORTER_OTLP_TRACES_ENDPOINT'' of
        Some s \<Rightarrow> s \<noteq> []
      | None \<Rightarrow> (case var_ok env ''OTEL_EXPORTER_OTLP_ENDPOINT'' of Some s \<Rightarrow> s \<noteq> [] | None \<Rightarrow> False))"
  by (simp add: from_otel_env_def is_enabled_def Let_def split: option.splits)

text \<open>
  Metrics go to the traces endpoint: with the traces variable set to a non-empty endpoint, a
  setup that ends, its metrics exporter having been built, succeeds and has installed the meter
  provider on that endpoint, and on no other.
\<close>

theorem metrics_use_traces_endpoint:
  assumes "env ''OTEL_EXPORTER_OTLP_TRACES_ENDPOINT'' = Present endpoint" and "endpoint \<noteq> []"
    and "metrics endpoint = Ok ()"
    and "setup_tracing metrics spans (Ok ()) parse env (from_otel_env env) = Some (res, acts)"
  shows "res = Ok () \<and> SetMeterProvider endpoint 5 \<in> set acts
    \<and> (\<forall>e n. SetMeterProvider e n \<in> set acts \<longrightarrow> e = endpoint)"
proof -
  have "tc_otel (from_otel_env env) = Enabled endpoint"
    using assms(1,2) by (simp add: from_otel_env_def var_ok_def)
  then show ?thesis
    using assms(3,4) by (auto simp: setup_tracing_def open_telemetry_layer_def Let_def split: option.splits if_splits)
qed

theorem metrics_use_traces_endpoint_witness:
  "\<exists>acts. setup_tracing (\<lambda>_. Ok ()) (\<lambda>_. Ok ()) (Ok ()) (\<lambda>s. Some s)
      (\<lambda>v. if v = ''OTEL_EXPORTER_OTLP_TRACES_ENDPOINT'' then Present ''http://traces:4317''
           else if v = ''OTEL_EXPORTER_OTLP_ENDPOINT'' then Present ''http://all:4317'' else NotPresent)
      (from_otel_env (\<lambda>v. if v = ''OTEL_EXPORTER_OTLP_TRACES_ENDPOINT'' then Present ''http://traces:4317''
           else if v = ''OTEL_EXPORTER_OTLP_ENDPOINT'' then Present ''http://all:4317'' else NotPresent)) = Some (Ok (), acts)
    \<and> SetMeterProvider ''http://traces:4317'' 5 \<in> set acts"
proof -
  let ?env = "\<lambda>v. if v = ''OTEL_EXPORTER_OTLP_TRACES_ENDPOINT'' then Present ''http://traces:4317''
           else if v = ''OTEL_EXPORTER_OTLP_ENDPOINT'' then Present ''http://all:4317'' else NotPresent"
  have t: "?env ''OTEL_EXPORTER_OTLP_TRACES_ENDPOINT'' = Present ''http://traces:4317''"
    by simp
  obtain res acts where s: "setup_tracing (\<lambda>_. Ok ()) (\<lambda>_. Ok ()) (Ok ()) (\<lambda>s. Some s) ?env (from_otel_env ?env) = Some (res, acts)"
    by (simp add: setup_tracing_def env_or_default_filter_def from_otel_env_def var_ok_def Let_def)
  from metrics_use_traces_endpoint [OF t _ _ s] s show ?thesis
    by simp
qed

section \<open>Instruments\<close>

text \<open>
  No two instruments of the node have the same name, and the constructors register every
  counter and every histogram of the model once.
\<close>

theorem instruments_are_distinct:
  "distinct (map in_name (metrics_grpc_new @ metrics_database_new))
   \<and> set (metrics_grpc_new @ metrics_database_new) = range counter_instrument \<union> range histogram_instrument"
proof -
  have c: "UNIV = {GrpcSendNoteCount, GrpcFetchNotesCount, DbStoreNoteCount, DbFetchNotesCount,
      DbFetchNotesLegacyCursorResetCount, DbMaintenanceCleanupNotesCount}"
    using counter_name.exhaust by blast
  have h: "UNIV = {GrpcSendNoteDuration, GrpcSendNoteNoteSize, GrpcFetchNotesDuration,
      GrpcFetchNotesRepliedNotesNumber, GrpcFetchNotesRepliedNotesSize, DbStoreNoteDuration,
      DbFetchNotesDuration, DbMaintenanceCleanupNotesDuration}"
    using histogram_name.exhaust by blast
  have "set (metrics_grpc_new @ metrics_database_new) = range counter_instrument \<union> range histogram_instrument"
    unfolding c h by (simp add: metrics_grpc_new_def metrics_database_new_def insert_commute del: counter_instrument.simps histogram_instrument.simps)
  moreover have "distinct (map in_name (metrics_grpc_new @ metrics_database_new))"
    by (simp add: metrics_grpc_new_def metrics_database_new_def)
  ultimately show ?thesis
    by blast
qed

end
