(* ===== verification/ServerLife.thy ===== *)
theory ServerLife
  imports StreamAnnounce
begin

text \<open>
  The life of a \<open>GrpcServer\<close>: its construction, which spawns the streaming task, and its end, when
  dropping the context of that task stops it (node/grpc/mod.rs, streaming.rs).
\<close>

section \<open>Construction\<close>

record note_streamer =
  nst_manager :: manager
  nst_rx :: "streamer_message list"

definition note_streamer_new :: "streamer_message list \<Rightarrow> note_streamer" where
  "note_streamer_new rx = \<lparr>nst_manager = manager_new, nst_rx = rx\<rparr>"

text \<open>The state \<open>NoteStreamer::stream\<close> starts its loop in.\<close>

definition stream_start :: "telemetry \<Rightarrow> note_streamer \<Rightarrow> stream_sys" where
  "stream_start tel ns = (sys_init tel)\<lparr>sy_streamer := (sy_streamer (sys_init tel))\<lparr>ss_manager := nst_manager ns\<rparr>,
                                        sy_ctl := nst_rx ns\<rparr>"

text \<open>
  \<open>StreamerCtx\<close> is one end of the control channel and the handle of the task: \<open>sv_flow\<close> is what
  runs, \<open>sv_ctx\<close> says whether the context is still held, \<open>sv_task\<close> how the task stands.
\<close>

datatype task_state = TaskRunning | TaskEnded | TaskAborted

record server_sys =
  sv_flow :: stream_sys
  sv_ctx :: bool
  sv_task :: task_state

definition streamer_ctx_spawn :: "telemetry \<Rightarrow> server_sys" where
  "streamer_ctx_spawn tel =
     \<lparr>sv_flow = stream_start tel (note_streamer_new []), sv_ctx = True, sv_task = TaskRunning\<rparr>"

record 'd grpc_server =
  gs_database :: 'd
  gs_config :: grpc_server_config
  gs_streamer :: server_sys
  gs_metrics :: "string \<times> instrument list"

definition grpc_server_new :: "telemetry \<Rightarrow> 'd \<Rightarrow> grpc_server_config \<Rightarrow> string \<times> instrument list \<Rightarrow> 'd grpc_server" where
  "grpc_server_new tel database config metrics =
     (let streamer = streamer_ctx_spawn tel
      in \<lparr>gs_database = database, gs_config = config, gs_streamer = streamer, gs_metrics = metrics\<rparr>)"

lemma grpc_server_new_flow: "sv_flow (gs_streamer (grpc_server_new tel db cfg m)) = sys_init tel"
  by (simp add: grpc_server_new_def streamer_ctx_spawn_def stream_start_def note_streamer_new_def sys_init_def)

section \<open>Steps\<close>

text \<open>
  While the task runs, the system takes its steps; new streams are only opened while the server is
  there, which holds the context. The task ends when it takes the \<open>Shutdown\<close> message. Then its end
  of the control channel and its senders are gone: sends on the one fail, and a stream whose
  channel is empty ends.
\<close>

definition shut_down :: "stream_sys \<Rightarrow> stream_sys \<Rightarrow> bool" where
  "shut_down s s' \<longleftrightarrow> sy_ctl s = Shutdown # sy_ctl s'"

definition poll_closed :: "transport_notes_pg list \<Rightarrow> transport_notes_pg option poll \<times> transport_notes_pg list" where
  "poll_closed q = (case q of [] \<Rightarrow> (Ready None, []) | pg # q' \<Rightarrow> (Ready (Some pg), q'))"

definition closed_send :: "streamer_message \<Rightarrow> streamer_message list \<Rightarrow> bool \<times> streamer_message list" where
  "closed_send msg q = (False, q)"

text \<open>Dropping the server drops the context of its streaming task.\<close>

definition drop_server :: "server_sys \<Rightarrow> server_sys" where
  "drop_server s =
     (let (abort, ctl) = streamer_ctx_drop (bounded_send CONTROL_CAPACITY) (sy_ctl (sv_flow s))
      in s\<lparr>sv_flow := (sv_flow s)\<lparr>sy_ctl := ctl\<rparr>, sv_ctx := False,
           sv_task := (if abort then TaskAborted else sv_task s)\<rparr>)"

inductive life_step :: "('h, 't) extern \<Rightarrow> ((u32 \<Rightarrow> notes_table) \<Rightarrow> bool) \<Rightarrow> server_sys \<Rightarrow> server_sys \<Rightarrow> bool"
  for x P where
  running: "sv_task s = TaskRunning \<Longrightarrow> flow_step x P (sv_flow s) fl \<Longrightarrow>
     sv_ctx s \<or> sy_ids fl = sy_ids (sv_flow s) \<Longrightarrow>
     life_step x P s (s\<lparr>sv_flow := fl, sv_task := (if shut_down (sv_flow s) fl then TaskEnded else TaskRunning)\<rparr>)"
| drop_ctx: "sv_ctx s \<Longrightarrow> life_step x P s (drop_server s)"
| poll: "sv_task s \<noteq> TaskRunning \<Longrightarrow> sy_ids (sv_flow s) i = Some t \<Longrightarrow> queue (sv_flow s) i = Some q \<Longrightarrow>
     poll_closed q = (recv, q') \<Longrightarrow>
     sub_poll_next (sub_new i t) recv closed_send w (sy_ctl (sv_flow s)) = (r, ctl) \<Longrightarrow>
     life_step x P s (s\<lparr>sv_flow := deliver i r (set_chan i (Some q') (sv_flow s))\<rparr>)"
| drop: "sv_task s \<noteq> TaskRunning \<Longrightarrow> queue (sv_flow s) i \<noteq> None \<Longrightarrow>
     life_step x P s (s\<lparr>sv_flow := set_chan i None (sv_flow s)\<rparr>)"



section \<open>The way to the shutdown\<close>












section \<open>Properties\<close>



text \<open>
  A stream outlives the streaming task by the pages in its channel. Once the task has ended, by
  shutdown or abort, an open stream can still be polled for every page its channel holds, in
  order, and the poll after them ends it.
\<close>

theorem stream_drains_after_shutdown:
  assumes "sv_task s \<noteq> TaskRunning" and "sy_ids (sv_flow s) i = Some t" and "queue (sv_flow s) i = Some q"
  shows "\<exists>s'. (life_step x P)\<^sup>*\<^sup>* s s'
    \<and> sy_got (sv_flow s') i = sy_got (sv_flow s) i @ map (\<lambda>pg. \<lparr>stu_notes = fst pg, stu_cursor = snd pg\<rparr>) q
    \<and> queue (sv_flow s') i = Some []
    \<and> fst (sub_poll_next (sub_new i t) (fst (poll_closed [])) closed_send w (sy_ctl (sv_flow s'))) = Ready None"
  using assms
proof (induction q arbitrary: s)
  case Nil
  then show ?case
    by (intro exI [of _ s]) (simp add: poll_closed_def sub_poll_next_def)
next
  case (Cons pg q)
  let ?u = "\<lparr>stu_notes = fst pg, stu_cursor = snd pg\<rparr>"
  let ?s = "s\<lparr>sv_flow := deliver i (Ready (Some (Ok ?u))) (set_chan i (Some q) (sv_flow s))\<rparr>"
  have "life_step x P s ?s"
    by (rule life_step.poll [where q = "pg # q" and recv = "Ready (Some pg)" and ctl = "sy_ctl (sv_flow s)", OF Cons.prems])
      (simp_all add: poll_closed_def sub_poll_next_def)
  moreover obtain s' where "(life_step x P)\<^sup>*\<^sup>* ?s s'"
      "sy_got (sv_flow s') i = sy_got (sv_flow ?s) i @ map (\<lambda>pg. \<lparr>stu_notes = fst pg, stu_cursor = snd pg\<rparr>) q"
      "queue (sv_flow s') i = Some []"
      "fst (sub_poll_next (sub_new i t) (fst (poll_closed [])) closed_send w (sy_ctl (sv_flow s'))) = Ready None"
    using Cons.IH [of ?s] Cons.prems by auto
  moreover have "sy_got (sv_flow ?s) i = sy_got (sv_flow s) i @ [?u]"
    by (simp add: deliver_def)
  ultimately show ?case
    by (intro exI [of _ s'] conjI) (auto intro: converse_rtranclp_into_rtranclp)
qed

definition ended_with_page :: server_sys where
  "ended_with_page =
     \<lparr>sv_flow = set_chan 9 (Some [([note1], 1)]) ((sys_init tel0)\<lparr>sy_ids := [9 \<mapsto> 3]\<rparr>), sv_ctx = False, sv_task = TaskEnded\<rparr>"

theorem stream_drains_after_shutdown_witness:
  "\<exists>s'. (life_step mini_extern (\<lambda>_. True))\<^sup>*\<^sup>* ended_with_page s'
    \<and> sy_got (sv_flow s') 9 = sy_got (sv_flow ended_with_page) 9
        @ map (\<lambda>pg. \<lparr>stu_notes = fst pg, stu_cursor = snd pg\<rparr>) [([note1], 1)]
    \<and> queue (sv_flow s') 9 = Some []
    \<and> fst (sub_poll_next (sub_new 9 3) (fst (poll_closed [])) closed_send 90 (sy_ctl (sv_flow s'))) = Ready None"
  by (rule stream_drains_after_shutdown) (simp_all add: ended_with_page_def)

end
