(* ===== verification/TestRuns.thy ===== *)
theory TestRuns
  imports Scenarios ServiceProps ServerLife "HOL-Library.Sublist"
begin

text \<open>
  The remaining unit tests of the node crate as programs (maintenance.rs, sqlite/models.rs,
  grpc/mod.rs), and what all of them do on the model of the SQLite backend.
\<close>

section \<open>Headers with random identifiers\<close>

text \<open>
  The helpers of test_utils.rs around the constructors of the miden-protocol crate, which are
  fields of \<open>protocol\<close>; \<open>r\<close> is the eight numbers a call draws. \<open>None\<close> is the panic of the \<open>unwrap\<close>.
\<close>

record ('w, 'd, 'a, 'nt, 'p, 'm, 'h) protocol =
  mp_word :: "u32 list \<Rightarrow> 'w"
  mp_from_raw_commitments :: "'w \<Rightarrow> 'w \<Rightarrow> 'd"
  mp_max_zeroes :: "'a option"
  mp_private :: 'nt
  mp_partial_metadata :: "'a \<Rightarrow> 'nt \<Rightarrow> u32 \<Rightarrow> 'p"
  mp_metadata :: "'p \<Rightarrow> 'm"
  mp_header :: "'d \<Rightarrow> 'm \<Rightarrow> 'h"

definition random_note_details_commitment ::
  "('w, 'd, 'a, 'nt, 'p, 'm, 'h) protocol \<Rightarrow> (nat \<Rightarrow> u32) \<Rightarrow> 'd" where
  "random_note_details_commitment p r =
     (let recipient = mp_word p [r 0, r 1, r 2, r 3];
          asset_commitment = mp_word p [r 4, r 5, r 6, r 7]
      in mp_from_raw_commitments p recipient asset_commitment)"

definition test_note_header_with_tag ::
  "('w, 'd, 'a, 'nt, 'p, 'm, 'h) protocol \<Rightarrow> (nat \<Rightarrow> u32) \<Rightarrow> u32 \<Rightarrow> 'h option" where
  "test_note_header_with_tag p r tag_value = do {
     let details_commitment = random_note_details_commitment p r;
     sender \<leftarrow> mp_max_zeroes p;
     let partial_metadata = mp_partial_metadata p sender (mp_private p) tag_value;
     let metadata = mp_metadata p partial_metadata;
     Some (mp_header p details_commitment metadata)
   }"

definition test_note_header :: "('w, 'd, 'a, 'nt, 'p, 'm, 'h) protocol \<Rightarrow> (nat \<Rightarrow> u32) \<Rightarrow> 'h option" where
  "test_note_header p r = test_note_header_with_tag p r TAG_LOCAL_ANY"

text \<open>
  What the tests need of them: \<open>g tag i\<close>, the header of the \<open>i\<close>-th call, carries its tag and no
  identifier recurs.
\<close>

definition header_source :: "('h, 't) extern \<Rightarrow> (u32 \<Rightarrow> nat \<Rightarrow> 'h) \<Rightarrow> bool" where
  "header_source x g \<longleftrightarrow> (\<forall>tag i. hdr_tag x (g tag i) = tag)
     \<and> (\<forall>tag tag' i j. hdr_id x (g tag i) = hdr_id x (g tag' j) \<longrightarrow> i = j)"

lemma header_sourceD:
  assumes "header_source x g"
  shows "hdr_tag x (g tag i) = tag" "hdr_id x (g tag i) = hdr_id x (g tag' j) \<Longrightarrow> i = j"
  using assms by (simp_all add: header_source_def)

text \<open>
  So it is when the constructors lose nothing, headers carry the tag of their metadata and are
  told apart by their commitment, and no two calls draw the same numbers.
\<close>

definition protocol_ok :: "('h, 't) extern \<Rightarrow> ('w, 'd, 'a, 'nt, 'p, 'm, 'h) protocol \<Rightarrow> bool" where
  "protocol_ok x p \<longleftrightarrow> mp_max_zeroes p \<noteq> None
     \<and> (\<forall>u v. length u = 4 \<longrightarrow> length v = 4 \<longrightarrow> mp_word p u = mp_word p v \<longrightarrow> u = v)
     \<and> (\<forall>a b c d. mp_from_raw_commitments p a b = mp_from_raw_commitments p c d \<longrightarrow> a = c \<and> b = d)
     \<and> (\<forall>d a nt tag. hdr_tag x (mp_header p d (mp_metadata p (mp_partial_metadata p a nt tag))) = tag)
     \<and> (\<forall>d m d' m'. hdr_id x (mp_header p d m) = hdr_id x (mp_header p d' m') \<longrightarrow> d = d')"

lemma header_source_of_draws:
  assumes "protocol_ok x p" and "\<And>i j. \<forall>k < 8. r i k = r j k \<Longrightarrow> i = j"
  shows "header_source x (\<lambda>tag i. the (test_note_header_with_tag p (r i) tag))"
proof -
  obtain a where a: "mp_max_zeroes p = Some a"
    using assms(1) unfolding protocol_ok_def by auto
  have h: "the (test_note_header_with_tag p (r i) tag) =
      mp_header p (random_note_details_commitment p (r i)) (mp_metadata p (mp_partial_metadata p a (mp_private p) tag))" for tag i
    by (simp add: test_note_header_with_tag_def a)
  have c: "i = j" if "random_note_details_commitment p (r i) = random_note_details_commitment p (r j)" for i j
  proof (rule assms(2))
    have inj: "mp_word p u = mp_word p v \<Longrightarrow> u = v" if "length u = 4" "length v = 4" for u v
      using assms(1) that unfolding protocol_ok_def by blast
    have "mp_word p [r i 0, r i 1, r i 2, r i 3] = mp_word p [r j 0, r j 1, r j 2, r j 3]"
      "mp_word p [r i 4, r i 5, r i 6, r i 7] = mp_word p [r j 4, r j 5, r j 6, r j 7]"
      using assms(1) that unfolding protocol_ok_def random_note_details_commitment_def Let_def by blast+
    then have "[r i 0, r i 1, r i 2, r i 3] = [r j 0, r j 1, r j 2, r j 3]" "[r i 4, r i 5, r i 6, r i 7] = [r j 4, r j 5, r j 6, r j 7]"
      by (auto dest!: inj [rotated 2])
    then show "\<forall>k < 8. r i k = r j k"
      by (auto simp: less_Suc_eq numeral_eq_Suc)
  qed
  show ?thesis
    using assms(1) c unfolding header_source_def h protocol_ok_def by blast
qed

text \<open>An instance: a header is an identifier and a tag, its bytes those of both.\<close>

definition tag_bytes :: "u32 \<Rightarrow> bytes" where
  "tag_bytes t = map (\<lambda>k. of_nat (unat t div 256 ^ k)) [0, 1, 2, 3]"

definition tag_of_bytes :: "bytes \<Rightarrow> u32" where
  "tag_of_bytes b = of_nat (foldr (\<lambda>d n. unat d + 256 * n) b 0)"

lemma tag_of_bytes_tag [simp]: "tag_of_bytes (tag_bytes t) = t"
proof -
  have "n mod 256 + 256 * (n div 256 mod 256 + 256 * (n div 65536 mod 256 + 256 * (n div 16777216 mod 256))) = n"
    if "n < 4294967296" for n :: nat
  proof -
    have d: "n div 65536 = n div 256 div 256" "n div 16777216 = n div 256 div 256 div 256"
      by (simp_all add: div_mult2_eq [symmetric])
    have "n div 256 div 256 div 256 < 256"
      using that by (simp add: less_mult_imp_div_less div_mult2_eq [symmetric])
    then show ?thesis
      by (simp add: d)
  qed
  moreover define n where "n = unat t"
  moreover have "n < 4294967296"
    unfolding n_def by (rule order_less_le_trans [OF unsigned_less]) simp
  ultimately have "foldr (\<lambda>d n. unat d + 256 * n) (tag_bytes t) 0 = unat t"
    by (simp add: tag_bytes_def n_def [symmetric] unat_of_nat)
  then show ?thesis
    by (simp add: tag_of_bytes_def)
qed

definition wide_extern :: "(bytes \<times> u32, i64) extern" where
  "wide_extern =
     \<lparr>hdr_read = (\<lambda>b. if length b < 4 then Err \<lparr>de_display = ''end of file'', de_debug = ''UnexpectedEOF''\<rparr>
                    else Ok (take (length b - 4) b, tag_of_bytes (drop (length b - 4) b))),
      hdr_bytes = (\<lambda>(i, t). i @ tag_bytes t),
      hdr_id = fst,
      hdr_tag = snd,
      ts_micros = (\<lambda>t. t),
      ts_from_micros = Some,
      ts_from_timestamp = (\<lambda>s n. Some (s * 1000000 + ucast n div 1000)),
      ts_minus_days = (\<lambda>t n. Some (word_of_int (sint t - sint n * 86400000000)))\<rparr>"

definition wide_header :: "u32 \<Rightarrow> nat \<Rightarrow> bytes \<times> u32" where
  "wide_header tag i = (replicate i 0, tag)"

lemma wide_extern_ok:
  "codec_ok wide_extern" "clock_ok wide_extern" "header_source wide_extern wide_header"
proof -
  have l: "length (tag_bytes t) = 4" for t
    by (simp add: tag_bytes_def)
  have "hdr_read wide_extern (hdr_bytes wide_extern (i, t)) = Ok (i, t)" for i t
    by (simp add: wide_extern_def l)
  then show "codec_ok wide_extern"
    by (auto simp: codec_ok_def)
  show "clock_ok wide_extern"
    by (simp add: clock_ok_def wide_extern_def)
  show "header_source wide_extern wide_header"
    by (auto simp: header_source_def wide_extern_def wide_header_def dest: arg_cong [of _ _ length])
qed

section \<open>The database tests\<close>

lemma sqlite_starts_empty:
  assumes "codec_ok x" "clock_ok x"
  shows "sqlite.holds x (empty_table, tel) [] 0"
  unfolding sqlite.holds_def using assms db_ok_empty by (simp add: empty_table_def)



section \<open>Rows, requests and the cleanup\<close>

definition expect :: "('a, 'e) result \<Rightarrow> 'a option" where
  "expect r = (case r of Ok a \<Rightarrow> Some a | Err e \<Rightarrow> None)"

definition test_note_converts_to_stored_note :: "('h, 't) extern \<Rightarrow> 'h \<Rightarrow> 't \<Rightarrow> unit option" where
  "test_note_converts_to_stored_note x header now = do {
     let created_at = ts_micros x now;
     stored \<leftarrow> expect (stored_of_row x
       \<lparr>nr_seq = 7, nr_id = hdr_id x header, nr_tag = 0, nr_header = hdr_bytes x header, nr_details = [1, 2, 3],
        nr_created_at = created_at, nr_after_block_num = Some 100\<rparr>);
     assert_that (sn_seq stored = 7);
     assert_that (note_id x stored = hdr_id x header);
     assert_that (sn_details stored = [1, 2, 3]);
     assert_that (ts_micros x (sn_created_at stored) = created_at);
     assert_that (sn_after_block_num stored = Some 100);
     stored_bare \<leftarrow> expect (stored_of_row x
       \<lparr>nr_seq = 8, nr_id = hdr_id x header, nr_tag = 0, nr_header = hdr_bytes x header, nr_details = [],
        nr_created_at = created_at, nr_after_block_num = None\<rparr>);
     assert_that (sn_after_block_num stored_bare = None)
   }"

definition test_out_of_range_after_block_num_is_rejected :: "('h, 't) extern \<Rightarrow> 'h \<Rightarrow> 't \<Rightarrow> unit option" where
  "test_out_of_range_after_block_num_is_rejected x header now =
     (case stored_of_row x
         \<lparr>nr_seq = 1, nr_id = hdr_id x header, nr_tag = 0, nr_header = hdr_bytes x header, nr_details = [],
          nr_created_at = ts_micros x now, nr_after_block_num = Some (i64_of_u32 4294967295 + 1)\<rparr> of
        Err (Deserialization msg) \<Rightarrow> assert_that (sublist ''Invalid after_block_num'' msg)
      | _ \<Rightarrow> None)"

text \<open>\<open>test_server\<close>: a server of default configuration on a database in memory.\<close>

definition test_server where
  "test_server x now files create build tel = do {
     let metrics = metrics_default;
     db \<leftarrow> expect (fst (database_connect x no_faults now files create build database_config_default));
     Some (grpc_server_new tel db grpc_config_default (mt_grpc metrics))
   }"

definition test_fetch_notes_rejects_too_many_tags ::
  "('h, 't) extern \<Rightarrow> faults \<Rightarrow> 'd grpc_server option \<Rightarrow> notes_table \<Rightarrow> telemetry \<Rightarrow> unit option" where
  "test_fetch_notes_rejects_too_many_tags x f started db tel = do {
     server \<leftarrow> started;
     (case fst (fetch_notes x f \<lparr>fnr_tags = replicate (MAX_TAGS_PER_FETCH_REQUEST + 1) 0, fnr_cursor = 0\<rparr> db tel) of
        Ok _ \<Rightarrow> None
      | Err status \<Rightarrow> do {
          assert_that (st_code status = InvalidArgument);
          assert_that (sublist ''Too many tags'' (st_message status)) })
   }"

definition test_fetch_notes_accepts_max_tags_at_limit ::
  "('h, 't) extern \<Rightarrow> faults \<Rightarrow> 'd grpc_server option \<Rightarrow> notes_table \<Rightarrow> telemetry \<Rightarrow> unit option" where
  "test_fetch_notes_accepts_max_tags_at_limit x f started db tel = do {
     server \<leftarrow> started;
     response \<leftarrow> expect (fst (fetch_notes x f
       \<lparr>fnr_tags = replicate MAX_TAGS_PER_FETCH_REQUEST 0, fnr_cursor = 0\<rparr> db tel));
     assert_that (length (fnp_notes response) = 0);
     assert_that (fnp_cursor response = 0)
   }"

text \<open>
  The tests of the cleanup store notes of given ages (\<open>ago age\<close> is \<open>Utc::now() - age\<close>, in seconds), spawn
  the task and wait two seconds, in which it runs one iteration and pauses; \<open>now\<close> is the time of that.
\<close>

definition note_at :: "'h \<Rightarrow> (nat \<Rightarrow> 't) \<Rightarrow> nat \<Rightarrow> ('h, 't) stored_note" where
  "note_at header ago age = test_note header [1, 2, 3, 4] (ago age) None"

definition notes_after_cleanup ::
  "('h, 't) extern \<Rightarrow> ('h, 't, notes_table \<times> telemetry) database \<Rightarrow> u32 \<Rightarrow> 't \<Rightarrow> ('h, 't) stored_note list
     \<Rightarrow> notes_table \<times> telemetry \<Rightarrow> u64 option" where
  "notes_after_cleanup x db retention_days now ns s = do {
     (t, tel) \<leftarrow> store_all db ns s;
     let (_, _, t, tel) = maintenance_entrypoint x [(no_faults, now)] (maintenance_new retention_days) t tel;
     ((total_notes, _), s) \<leftarrow> unwrap (database_get_stats db (t, tel));
     Some total_notes
   }"

definition test_cleanup_old_notes_no_retention where
  "test_cleanup_old_notes_no_retention x db header ago now s = do {
     total_notes \<leftarrow> notes_after_cleanup x db 0 now [note_at header ago 30] s;
     assert_that (total_notes = 0)
   }"

definition test_cleanup_old_notes_retention where
  "test_cleanup_old_notes_retention x db header ago now s = do {
     total_notes \<leftarrow> notes_after_cleanup x db 7 now [note_at header ago 30] s;
     assert_that (total_notes = 1)
   }"

definition test_cleanup_old_notes_mixed_ages where
  "test_cleanup_old_notes_mixed_ages x db h1 h2 ago now s = do {
     total_notes \<leftarrow> notes_after_cleanup x db 1 now [note_at h1 ago 30, note_at h2 ago (26 * 60 * 60)] s;
     assert_that (total_notes = 1)
   }"

lemma maintenance_once:
  assumes "sqlite.holds x (t, tel) L k" and "sqlite_cutoff x now days = Some m"
  obtains t' tel' where "maintenance_entrypoint x [(no_faults, now)] (maintenance_new days) t tel = (True, CLEANUP_PERIOD, t', tel')"
    "sqlite.holds x (t', tel') (filter (\<lambda>n. m \<le> sint (ts_micros x (sn_created_at n))) L) k"
proof -
  obtain n s' where c: "be_cleanup_old_notes (sqlite_backend x no_faults now) days (t, tel) = Some (Ok n, s')"
      and h: "sqlite.holds x s' (filter (\<lambda>n. m \<le> sint (ts_micros x (sn_created_at n))) L) k"
    using sqlite.cleanup [of x "(t, tel)" now days m] assms unfolding sqlite.holds_def by auto
  then obtain t' where d: "db_cleanup_old_notes x no_faults now days t = Some (Ok n, t')" "s' = (t', tel)"
    by (auto simp: sqlite_backend_def)
  obtain tel' where "maintenance_entrypoint x [(no_faults, now)] (maintenance_new days) t tel = (True, CLEANUP_PERIOD, t', tel')"
    by (simp add: maintenance_entrypoint_def maintenance_new_def is_active_def maintenance_step_def d(1) Let_def case_prod_beta)
  moreover have "sqlite.holds x (t', tel') (filter (\<lambda>n. m \<le> sint (ts_micros x (sn_created_at n))) L) k"
    using h unfolding d(2) sqlite.holds_def by simp
  ultimately show thesis
    by (rule that)
qed

lemma notes_after_cleanup_count:
  assumes "sqlite.holds x s [] 0" and "distinct (map (note_id x) ns)" and "int (length ns) < 2 ^ 63"
    and "sqlite_cutoff x now days = Some m"
  shows "notes_after_cleanup x (sqlite.D x now) days now ns s =
    Some (word_of_nat (length (filter (\<lambda>n. m \<le> sint (ts_micros x (sn_created_at n))) (stamped_all x 0 ns))))"
  unfolding notes_after_cleanup_def
proof (rule sqlite.store_all_bind [OF assms(1,2)])
  fix s'
  assume h: "sqlite.holds x s' ([] @ stamped_all x 0 ns) (0 + int (length ns))"
  obtain t tel where s': "s' = (t, tel)" by fastforce
  obtain t' tel' where m: "maintenance_entrypoint x [(no_faults, now)] (maintenance_new days) t tel = (True, CLEANUP_PERIOD, t', tel')"
    "sqlite.holds x (t', tel')
      (filter (\<lambda>n. m \<le> sint (ts_micros x (sn_created_at n))) ([] @ stamped_all x 0 ns)) (0 + int (length ns))"
    using maintenance_once [OF h [unfolded s'] assms(4)] .
  show "(case s' of (t, tel) \<Rightarrow> let (_, _, t, tel) = maintenance_entrypoint x [(no_faults, now)] (maintenance_new days) t tel in
      unwrap (database_get_stats (sqlite.D x now) (t, tel)) \<bind> (\<lambda>((total_notes, _), s). Some total_notes)) =
    Some (word_of_nat (length (filter (\<lambda>n. m \<le> sint (ts_micros x (sn_created_at n))) (stamped_all x 0 ns))))"
    unfolding s' m(1) Let_def prod.case by (rule sqlite.stats_bind [OF m(2)]) simp
qed (use assms(3) in simp_all)

text \<open>
  The other unit tests of the node pass too: a row converts column by column and one with a block
  number outside 32 bits is refused with that message, 129 tags are refused whatever the database
  and its failures while 128 are answered, and the cleanup removes a note of 30 seconds at a
  retention of 0 days, keeps it at 7, and at 1 day keeps it and removes one of 26 hours.
\<close>

theorem component_tests_pass:
  assumes "codec_ok x" "clock_ok x" "header_source x g"
    and "database_connect x no_faults now files create build database_config_default = (Ok db, files')"
    and "ts_minus_days x now 0 = Some c0" "ts_minus_days x now 1 = Some c1" "ts_minus_days x now 7 = Some c7"
    and "sint (ts_micros x (ago 30)) < sint (ts_micros x c0)" "sint (ts_micros x c1) \<le> sint (ts_micros x (ago 30))"
      "sint (ts_micros x c7) \<le> sint (ts_micros x (ago 30))" "sint (ts_micros x (ago 93600)) < sint (ts_micros x c1)"
  shows "test_note_converts_to_stored_note x header t = Some ()
    \<and> test_out_of_range_after_block_num_is_rejected x header t = Some ()
    \<and> test_fetch_notes_rejects_too_many_tags x f (test_server x now files create build tel) any_table tel = Some ()
    \<and> test_fetch_notes_accepts_max_tags_at_limit x no_faults (test_server x now files create build tel) empty_table tel = Some ()
    \<and> test_cleanup_old_notes_no_retention x db (g TAG_LOCAL_ANY 0) ago now (empty_table, tel) = Some ()
    \<and> test_cleanup_old_notes_retention x db (g TAG_LOCAL_ANY 0) ago now (empty_table, tel) = Some ()
    \<and> test_cleanup_old_notes_mixed_ages x db (g TAG_LOCAL_ANY 0) (g TAG_LOCAL_ANY 1) ago now (empty_table, tel) = Some ()"
proof (intro conjI)
  have db: "db = sqlite.D x now"
    using assms(4) by (auto simp: database_connect_def Let_def res_bind_Ok_iff split: prod.splits)
  have srv: "test_server x now files create build tel = Some (grpc_server_new tel db grpc_config_default (mt_grpc metrics_default))"
    using assms(4) by (simp add: test_server_def expect_def)
  note count = notes_after_cleanup_count [OF sqlite_starts_empty [OF assms(1,2), of tel]]
  have ids: "hdr_id x (g TAG_LOCAL_ANY 0) \<noteq> hdr_id x (g TAG_LOCAL_ANY 1)"
    using header_sourceD(2) [OF assms(3)] zero_neq_one by blast
  have micros: "ts_micros x (sn_created_at (stamped x k n)) = ts_micros x (sn_created_at n)" for k n
    using ts_trunc_ok [OF assms(2)] by (simp add: stamped_def)
  have at: "sn_created_at (note_at h ago age) = ago age" "sn_header (note_at h ago age) = h" for h age
    by (simp_all add: note_at_def test_note_def)
  show "test_cleanup_old_notes_no_retention x db (g TAG_LOCAL_ANY 0) ago now (empty_table, tel) = Some ()"
    using assms(5,8) count [of "[note_at (g TAG_LOCAL_ANY 0) ago 30]" now 0]
    by (simp add: test_cleanup_old_notes_no_retention_def db i64_of_u32_def micros at assert_that_def)
  show "test_cleanup_old_notes_retention x db (g TAG_LOCAL_ANY 0) ago now (empty_table, tel) = Some ()"
    using assms(7,10) count [of "[note_at (g TAG_LOCAL_ANY 0) ago 30]" now 7]
    by (simp add: test_cleanup_old_notes_retention_def db i64_of_u32_def micros at assert_that_def)
  show "test_cleanup_old_notes_mixed_ages x db (g TAG_LOCAL_ANY 0) (g TAG_LOCAL_ANY 1) ago now (empty_table, tel) = Some ()"
    using assms(6,9,11) ids count [of "[note_at (g TAG_LOCAL_ANY 0) ago 30, note_at (g TAG_LOCAL_ANY 1) ago 93600]" now 1]
    by (simp add: test_cleanup_old_notes_mixed_ages_def db i64_of_u32_def micros at assert_that_def)
  show "test_note_converts_to_stored_note x header t = Some ()"
    using codec_okD [OF assms(1)] ts_trunc_ok [OF assms(2), of t]
    by (simp add: test_note_converts_to_stored_note_def stored_of_row_def expect_def assert_that_def u32_try_i64_def Let_def)
  show "test_out_of_range_after_block_num_is_rejected x header t = Some ()"
    using codec_okD [OF assms(1)] ts_trunc_ok [OF assms(2), of t]
    by (simp add: test_out_of_range_after_block_num_is_rejected_def stored_of_row_def assert_that_def u32_try_i64_def i64_of_u32_def)
  show "test_fetch_notes_rejects_too_many_tags x f (test_server x now files create build tel) any_table tel = Some ()"
    by (simp add: test_fetch_notes_rejects_too_many_tags_def srv fetch_notes_def timer_defs Let_def assert_that_def
        invalid_argument_def)
  show "test_fetch_notes_accepts_max_tags_at_limit x no_faults (test_server x now files create build tel) empty_table tel = Some ()"
    by (simp add: test_fetch_notes_accepts_max_tags_at_limit_def srv handler_eval expect_def assert_that_def
        set_replicate_conv_if)
qed

theorem component_tests_pass_witness:
  "test_cleanup_old_notes_mixed_ages wide_extern \<lparr>dbs_backend = sqlite_backend wide_extern no_faults 864000000000\<rparr>
     (wide_header TAG_LOCAL_ANY 0) (wide_header TAG_LOCAL_ANY 1) (\<lambda>age. 864000000000 - of_nat age * 1000000)
     864000000000 (empty_table, tel0) = Some ()"
proof -
  have c: "database_connect wide_extern no_faults 864000000000 {} (\<lambda>_. Ok ()) (\<lambda>_. Ok ()) database_config_default =
      (Ok \<lparr>dbs_backend = sqlite_backend wide_extern no_faults 864000000000\<rparr>, {})"
    by (simp add: database_connect_def db_connect_def database_config_default_def is_in_memory_def)
  have d: "ts_minus_days wide_extern 864000000000 0 = Some 864000000000" "ts_minus_days wide_extern 864000000000 1 = Some 777600000000"
    "ts_minus_days wide_extern 864000000000 7 = Some 259200000000"
    by (simp_all add: wide_extern_def)
  show ?thesis
    using component_tests_pass [where ago = "\<lambda>age. 864000000000 - of_nat age * 1000000" and tel = tel0, OF wide_extern_ok c d]
    by (simp add: wide_extern_def)
qed

end
