(* ===== verification/Rpc.thy ===== *)
theory Rpc
  imports ServiceProps
begin

text \<open>
  The generated client and server (crates/proto/src/generated/miden_note_transport.rs) around the
  handlers. tonic's codecs, its client and its HTTP messages are third-party and enter as arguments:
  for each method a codec that runs a handler on an HTTP request, and that makes a call over a
  function that answers HTTP requests.
\<close>

section \<open>What tonic provides\<close>



section \<open>The server\<close>

text \<open>The trait \<open>MidenNoteTransport\<close>: \<open>'u\<close> is its \<open>StreamNotesStream\<close>.\<close>

record ('u, 's) note_transport =
  nt_send_note :: "send_note_request \<Rightarrow> 's \<Rightarrow> (send_note_response, status) result \<times> 's"
  nt_fetch_notes :: "fetch_notes_request \<Rightarrow> 's \<Rightarrow> (fetch_notes_response, status) result \<times> 's"
  nt_stream_notes :: "stream_notes_request \<Rightarrow> 's \<Rightarrow> ('u, status) result \<times> 's"
  nt_stats :: "unit \<Rightarrow> 's \<Rightarrow> (stats_response, status) result \<times> 's"

record ('e, 'i) note_transport_server =
  nts_inner :: 'i
  nts_codec :: "'e codec_settings"

definition server_from_arc :: "'i \<Rightarrow> ('e, 'i) note_transport_server" where
  "server_from_arc inner = \<lparr>nts_inner = inner, nts_codec = codec_settings_default\<rparr>"

definition server_new :: "'i \<Rightarrow> ('e, 'i) note_transport_server" where
  "server_new inner = server_from_arc inner"

text \<open>\<open>with_interceptor\<close>: \<open>intercepted\<close> is \<open>InterceptedService::new\<close>.\<close>

definition server_with_interceptor :: "(('e, 'i) note_transport_server \<Rightarrow> 'f \<Rightarrow> 'v) \<Rightarrow> 'i \<Rightarrow> 'f \<Rightarrow> 'v" where
  "server_with_interceptor intercepted inner interceptor = intercepted (server_new inner) interceptor"

definition server_accept_compressed :: "'e \<Rightarrow> ('e, 'i) note_transport_server \<Rightarrow> ('e, 'i) note_transport_server" where
  "server_accept_compressed encoding srv = srv\<lparr>nts_codec :=
     (nts_codec srv)\<lparr>cs_accept_compression := insert encoding (cs_accept_compression (nts_codec srv))\<rparr>\<rparr>"

definition server_send_compressed :: "'e \<Rightarrow> ('e, 'i) note_transport_server \<Rightarrow> ('e, 'i) note_transport_server" where
  "server_send_compressed encoding srv = srv\<lparr>nts_codec :=
     (nts_codec srv)\<lparr>cs_send_compression := insert encoding (cs_send_compression (nts_codec srv))\<rparr>\<rparr>"

definition server_max_decoding_message_size :: "nat \<Rightarrow> ('e, 'i) note_transport_server \<Rightarrow> ('e, 'i) note_transport_server" where
  "server_max_decoding_message_size limit srv = srv\<lparr>nts_codec := (nts_codec srv)\<lparr>cs_max_decoding := Some limit\<rparr>\<rparr>"

definition server_max_encoding_message_size :: "nat \<Rightarrow> ('e, 'i) note_transport_server \<Rightarrow> ('e, 'i) note_transport_server" where
  "server_max_encoding_message_size limit srv = srv\<lparr>nts_codec := (nts_codec srv)\<lparr>cs_max_encoding := Some limit\<rparr>\<rparr>"

definition server_clone :: "('e, 'i) note_transport_server \<Rightarrow> ('e, 'i) note_transport_server" where
  "server_clone srv = \<lparr>nts_inner = nts_inner srv, nts_codec = nts_codec srv\<rparr>"

definition server_poll_ready :: "('e, 'i) note_transport_server \<Rightarrow> (unit, 'x) result" where
  "server_poll_ready srv = Ok ()"

definition SERVICE_NAME :: string where
  "SERVICE_NAME = ''miden_note_transport.MidenNoteTransport''"








section \<open>The client\<close>

text \<open>\<open>MidenNoteTransportClient\<close>; \<open>grpc_new\<close> and the other functions are those of \<open>tonic::client::Grpc\<close>.\<close>

record 'g note_transport_client =
  ntc_inner :: 'g

definition client_new :: "('t \<Rightarrow> 'g) \<Rightarrow> 't \<Rightarrow> 'g note_transport_client" where
  "client_new grpc_new inner = \<lparr>ntc_inner = grpc_new inner\<rparr>"

definition client_with_origin :: "('t \<Rightarrow> 'o \<Rightarrow> 'g) \<Rightarrow> 't \<Rightarrow> 'o \<Rightarrow> 'g note_transport_client" where
  "client_with_origin grpc_with_origin inner origin = \<lparr>ntc_inner = grpc_with_origin inner origin\<rparr>"

definition client_with_interceptor :: "('v \<Rightarrow> 'g) \<Rightarrow> ('t \<Rightarrow> 'f \<Rightarrow> 'v) \<Rightarrow> 't \<Rightarrow> 'f \<Rightarrow> 'g note_transport_client" where
  "client_with_interceptor grpc_new intercepted inner interceptor = client_new grpc_new (intercepted inner interceptor)"

text \<open>\<open>connect\<close>: \<open>Endpoint::new\<close>, then \<open>Endpoint::connect\<close>, each with a \<open>?\<close>.\<close>

definition client_connect ::
  "('d \<Rightarrow> ('n, 'x) result) \<Rightarrow> ('n \<Rightarrow> ('t, 'x) result) \<Rightarrow> ('t \<Rightarrow> 'g) \<Rightarrow> 'd \<Rightarrow> ('g note_transport_client, 'x) result" where
  "client_connect endpoint_new endpoint_connect grpc_new dst =
     res_bind (endpoint_new dst) (\<lambda>endpoint.
     res_bind (endpoint_connect endpoint) (\<lambda>conn.
     Ok (client_new grpc_new conn)))"

text \<open>The four builder methods hand their argument to tonic's \<open>Grpc\<close>.\<close>

definition client_send_compressed :: "('e \<Rightarrow> 'g \<Rightarrow> 'g) \<Rightarrow> 'e \<Rightarrow> 'g note_transport_client \<Rightarrow> 'g note_transport_client" where
  "client_send_compressed grpc_send_compressed encoding c = c\<lparr>ntc_inner := grpc_send_compressed encoding (ntc_inner c)\<rparr>"

definition client_accept_compressed :: "('e \<Rightarrow> 'g \<Rightarrow> 'g) \<Rightarrow> 'e \<Rightarrow> 'g note_transport_client \<Rightarrow> 'g note_transport_client" where
  "client_accept_compressed grpc_accept_compressed encoding c = c\<lparr>ntc_inner := grpc_accept_compressed encoding (ntc_inner c)\<rparr>"

definition client_max_decoding_message_size :: "(nat \<Rightarrow> 'g \<Rightarrow> 'g) \<Rightarrow> nat \<Rightarrow> 'g note_transport_client \<Rightarrow> 'g note_transport_client" where
  "client_max_decoding_message_size grpc_max_decoding limit c = c\<lparr>ntc_inner := grpc_max_decoding limit (ntc_inner c)\<rparr>"

definition client_max_encoding_message_size :: "(nat \<Rightarrow> 'g \<Rightarrow> 'g) \<Rightarrow> nat \<Rightarrow> 'g note_transport_client \<Rightarrow> 'g note_transport_client" where
  "client_max_encoding_message_size grpc_max_encoding limit c = c\<lparr>ntc_inner := grpc_max_encoding limit (ntc_inner c)\<rparr>"







section \<open>What a call does\<close>







section \<open>The node behind it\<close>

text \<open>
  \<open>impl MidenNoteTransport for GrpcServer\<close>: the handlers on the table, the telemetry and the control
  channel of the streaming task.
\<close>

definition grpc_handlers ::
  "('h, 't) extern \<Rightarrow> grpc_server_config \<Rightarrow> faults \<Rightarrow> 't \<Rightarrow> sub_id \<Rightarrow> chan \<Rightarrow> (streamer_message \<Rightarrow> 'q \<Rightarrow> bool \<times> 'q) \<Rightarrow> string
     \<Rightarrow> (sub, notes_table \<times> telemetry \<times> 'q) note_transport" where
  "grpc_handlers x cfg f now i ch ctl why =
     \<lparr>nt_send_note = (\<lambda>rq (t, tel, q). let (r, t, tel) = send_note x cfg f now rq t tel in (r, (t, tel, q))),
      nt_fetch_notes = (\<lambda>rq (t, tel, q). let (r, tel) = fetch_notes x f rq t tel in (r, (t, tel, q))),
      nt_stream_notes = (\<lambda>rq (t, tel, q). let (r, q) = stream_notes rq i ch ctl why q in (r, (t, tel, q))),
      nt_stats = (\<lambda>_ (t, tel, q). (stats f t, (t, tel, q)))\<rparr>"



section \<open>A transport in one process\<close>







abbreviation "demo_service \<equiv> grpc_handlers mini_extern grpc_config_default no_faults 50 9 1 (bounded_send CONTROL_CAPACITY) []"

abbreviation "demo_client \<equiv> \<lparr>ntc_inner = ()\<rparr>"




end
