(* ===== verification/Program.thy ===== *)
theory Program
  imports ServiceProps "HOL-Library.List_Lexorder" "HOL-Library.Char_ord" "HOL-Library.Multiset"
begin

text \<open>
  The binary (bin/node/src/main.rs) and the build scripts (crates/proto/build.rs, proto/build.rs,
  crates/node/build.rs) with the descriptor they produce (proto/src/lib.rs). What clap, the
  exporters, the proto compiler and the file system answer are arguments.
\<close>

section \<open>\<open>main\<close>\<close>






section \<open>Paths and files\<close>

text \<open>\<open>Path::join\<close>.\<close>

definition path_join :: "string \<Rightarrow> string \<Rightarrow> string" where
  "path_join p f =
     (if f \<noteq> [] \<and> hd f = CHR ''/'' then f
      else if p = [] \<or> last p = CHR ''/'' then p @ f
      else p @ ''/'' @ f)"

text \<open>The part of a file name before and after its last dot.\<close>

definition rsplit_at_dot :: "string \<Rightarrow> string option \<times> string option" where
  "rsplit_at_dot name =
     (let after = rev (takeWhile (\<lambda>c. c \<noteq> CHR ''.'') (rev name)) in
      if name = ''..'' \<or> length after = length name then (Some name, None)
      else let before = take (length name - length after - 1) name
           in if before = [] then (Some name, None) else (Some before, Some after))"

definition file_stem :: "string \<Rightarrow> string option" where
  "file_stem name = fst (rsplit_at_dot name)"

definition extension :: "string \<Rightarrow> string option" where
  "extension name = snd (rsplit_at_dot name)"

text \<open>\<open>fs::write\<close>: \<open>io\<close> gives the error of writing a path, if any.\<close>

definition write_file ::
  "(string \<Rightarrow> string option) \<Rightarrow> string \<Rightarrow> 'c \<Rightarrow> (string \<rightharpoonup> 'c) \<Rightarrow> (unit, string) result \<times> (string \<rightharpoonup> 'c)" where
  "write_file io p content files = (case io p of Some e \<Rightarrow> (Err e, files) | None \<Rightarrow> (Ok (), files(p \<mapsto> content)))"

section \<open>The build scripts\<close>

definition MNT_DESCRIPTOR :: string where
  "MNT_DESCRIPTOR = ''miden_note_transport_file_descriptor.bin''"

definition MNT_PROTO :: string where
  "MNT_PROTO = ''miden_note_transport.proto''"

text \<open>
  The loop of \<open>generate_mod_rs\<close> over the directory's entries: an entry is its name and whether it is a
  file, or the error of reading it.
\<close>

fun discover_submodules :: "(string \<times> bool, string) result list \<Rightarrow> (string list, string) result" where
  "discover_submodules [] = Ok []"
| "discover_submodules (Err e # entries) = Err e"
| "discover_submodules (Ok (name, is_file) # entries) =
     res_bind (discover_submodules entries) (\<lambda>rest.
       Ok (if is_file \<and> extension name = Some ''rs'' \<and> name \<noteq> ''mod.rs''
           then (case file_stem name of Some f \<Rightarrow> f # rest | None \<Rightarrow> rest) else rest))"

definition quoted :: "string \<Rightarrow> string" where
  "quoted s = [CHR 0x22] @ s @ [CHR 0x22]"

definition newline :: string where
  "newline = [CHR 0x0A]"

definition mod_rs_contents :: "string list \<Rightarrow> string" where
  "mod_rs_contents submodules =
     concat ([''#![allow(clippy::pedantic, reason = '' @ quoted ''generated by build.rs and tonic'' @ '')]'' @ newline,
              ''#![allow(clippy::large_enum_variant, reason = '' @ quoted ''generated by build.rs and tonic'' @ '')]'' @
                newline @ newline]
             @ map (\<lambda>f. ''pub mod '' @ f @ '';'' @ newline) submodules)"

definition generate_mod_rs ::
  "(string \<Rightarrow> string option) \<Rightarrow> string \<Rightarrow> ((string \<times> bool, string) result list, string) result
     \<Rightarrow> (string \<rightharpoonup> string) \<Rightarrow> (unit, string) result \<times> (string \<rightharpoonup> string)" where
  "generate_mod_rs io directory read_dir files =
     (let mod_filepath = path_join directory ''mod.rs'' in
      case res_bind read_dir discover_submodules of
        Err e \<Rightarrow> (Err e, files)
      | Ok submodules \<Rightarrow> write_file io mod_filepath (mod_rs_contents (sort submodules)) files)"

text \<open>
  \<open>main\<close> of crates/proto/build.rs, \<open>encode\<close> being prost's, and \<open>compile\<close> what tonic's generator does to
  the files of src/generated and their listing. Files hold text or bytes, both as strings; \<open>None\<close>: the
  \<open>expect\<close> of OUT_DIR panics. The result carries the lines printed for cargo; an
  error is rendered with its context.
\<close>

definition proto_build_main ::
  "(string \<Rightarrow> string option) \<Rightarrow> (string \<Rightarrow> env_var) \<Rightarrow> 'd \<Rightarrow> ('d \<Rightarrow> string)
     \<Rightarrow> ('d \<Rightarrow> (string \<rightharpoonup> string) \<Rightarrow> (unit, string) result \<times> (string \<rightharpoonup> string))
     \<Rightarrow> ((string \<rightharpoonup> string) \<Rightarrow> ((string \<times> bool, string) result list, string) result) \<Rightarrow> (string \<rightharpoonup> string)
     \<Rightarrow> ((unit, string) result \<times> (string \<rightharpoonup> string)) option \<times> string list" where
  "proto_build_main io env descriptor encode compile read_dir files =
     (case var_ok env ''OUT_DIR'' of
        None \<Rightarrow> None
      | Some out \<Rightarrow>
          Some (case write_file io (path_join out MNT_DESCRIPTOR) (encode descriptor) files of
            (Err e, files) \<Rightarrow> (Err (''writing mnt file descriptor: '' @ e), files)
          | (Ok _, files) \<Rightarrow>
              if env ''BUILD_PROTO'' \<noteq> Present ''1'' then (Ok (), files)
              else (case compile descriptor files of
                      (Err e, files) \<Rightarrow> (Err (''generating protobuf bindings: '' @ e), files)
                    | (Ok _, files) \<Rightarrow> generate_mod_rs io ''src/generated'' (read_dir files) files)),
      [''cargo::rerun-if-changed=../../proto/proto'', ''cargo::rerun-if-env-changed=BUILD_PROTO''])"

text \<open>\<open>main\<close> of proto/build.rs: \<open>protox\<close> compiles a file found under an include directory.\<close>

definition descriptor_build_main ::
  "(string \<Rightarrow> string option) \<Rightarrow> (string \<Rightarrow> env_var) \<Rightarrow> string \<Rightarrow> (string \<Rightarrow> string \<Rightarrow> ('d, string) result) \<Rightarrow> ('d \<Rightarrow> string)
     \<Rightarrow> (string \<rightharpoonup> string) \<Rightarrow> ((unit, string) result \<times> (string \<rightharpoonup> string)) option \<times> string list" where
  "descriptor_build_main io env manifest_dir protox encode files =
     (case var_ok env ''OUT_DIR'' of
        None \<Rightarrow> None
      | Some out \<Rightarrow>
          Some (case protox MNT_PROTO (path_join manifest_dir ''proto'') of
            Err e \<Rightarrow> (Err e, files)
          | Ok d \<Rightarrow>
              (case write_file io (path_join out MNT_DESCRIPTOR) (encode d) files of
                 (Err e, files) \<Rightarrow> (Err (''writing mnt file descriptor: '' @ e), files)
               | (Ok _, files) \<Rightarrow> (Ok (), files))),
      [''cargo::rerun-if-changed=./proto'', ''cargo::rerun-if-env-changed=BUILD_PROTO''])"

definition node_build_main :: "string list" where
  "node_build_main =
     [''cargo:rerun-if-changed=./src/database/sqlite/migrations'', ''cargo:rerun-if-changed=Cargo.toml'']"

text \<open>
  \<open>mnt_api_descriptor\<close>: the file the build script left, included at compile time and decoded. \<open>None\<close>:
  it does not compile without the file, or panics on bytes that do not decode.
\<close>

definition mnt_api_descriptor :: "(string \<Rightarrow> ('d, string) result) \<Rightarrow> string \<Rightarrow> (string \<rightharpoonup> string) \<Rightarrow> 'd option" where
  "mnt_api_descriptor decode out files =
     (case files (out @ ''/'' @ ''miden_note_transport_file_descriptor.bin'') of
        None \<Rightarrow> None
      | Some bytes \<Rightarrow> (case decode bytes of Ok d \<Rightarrow> Some d | Err e \<Rightarrow> None))"

section \<open>How the process ends\<close>



section \<open>What the build leaves\<close>

definition is_submodule :: "string \<times> bool \<Rightarrow> bool" where
  "is_submodule e \<longleftrightarrow> snd e \<and> extension (fst e) = Some ''rs'' \<and> fst e \<noteq> ''mod.rs''"

lemma discover_submodules_Ok:
  "discover_submodules (map Ok es) = Ok (map (\<lambda>e. the (file_stem (fst e))) (filter is_submodule es))"
  by (induction es) (auto simp: is_submodule_def file_stem_def rsplit_at_dot_def Let_def split: option.splits)

text \<open>
  The module list does not depend on the order in which the directory is read, nor on whether the list
  itself is there: running the script again writes the same file.
\<close>

theorem generate_mod_rs_deterministic:
  assumes "mset es' = mset es \<or> mset es' = mset ((''mod.rs'', True) # es)"
  shows "generate_mod_rs io d (Ok (map Ok es')) files = generate_mod_rs io d (Ok (map Ok es)) files"
proof -
  have "\<not> is_submodule (''mod.rs'', True)"
    by (simp add: is_submodule_def)
  then have "mset (filter is_submodule es') = mset (filter is_submodule es)"
    using assms by (auto simp: mset_filter)
  then have "mset (map (\<lambda>e. the (file_stem (fst e))) (filter is_submodule es')) =
      mset (map (\<lambda>e. the (file_stem (fst e))) (filter is_submodule es))"
    by simp
  then have "sort (map (\<lambda>e. the (file_stem (fst e))) (filter is_submodule es')) =
      sort (map (\<lambda>e. the (file_stem (fst e))) (filter is_submodule es))"
    by (intro properties_for_sort) simp_all
  then show ?thesis
    by (simp add: generate_mod_rs_def discover_submodules_Ok)
qed

text \<open>The committed src/generated/mod.rs is what the script writes for the committed directory.\<close>

theorem committed_mod_rs:
  "generate_mod_rs (\<lambda>_. None) ''src/generated'' (Ok [Ok (''mod.rs'', True), Ok (''miden_note_transport.rs'', True)]) files =
     (Ok (), files(''src/generated/mod.rs'' \<mapsto> mod_rs_contents [''miden_note_transport'']))"
  by (simp add: generate_mod_rs_def path_join_def extension_def file_stem_def rsplit_at_dot_def Let_def write_file_def)

text \<open>
  The descriptor survives the build: what the build script of the descriptor crate encodes is what
  \<open>mnt_api_descriptor\<close> decodes from the same OUT_DIR.
\<close>

theorem descriptor_survives_build:
  assumes "\<And>d. decode (encode d) = Ok d" and "out \<noteq> []" "last out \<noteq> CHR ''/''"
    and "env ''OUT_DIR'' = Present out"
    and "fst (descriptor_build_main io env dir protox encode files) = Some (Ok u, files')"
  shows "\<exists>d. protox MNT_PROTO (path_join dir ''proto'') = Ok d \<and> mnt_api_descriptor decode out files' = Some d"
  using assms
  by (auto simp: descriptor_build_main_def var_ok_def write_file_def MNT_DESCRIPTOR_def path_join_def mnt_api_descriptor_def
      split: result.splits option.splits prod.splits)

theorem generate_mod_rs_deterministic_witness:
  "generate_mod_rs (\<lambda>_. None) ''src/generated'' (Ok (map Ok [(''b.rs'', True), (''mod.rs'', True), (''a.rs'', True)])) files =
     generate_mod_rs (\<lambda>_. None) ''src/generated'' (Ok (map Ok [(''a.rs'', True), (''b.rs'', True)])) files"
  by (rule generate_mod_rs_deterministic) simp

theorem descriptor_survives_build_witness:
  "mnt_api_descriptor Ok ''/out'' [''/out/miden_note_transport_file_descriptor.bin'' \<mapsto> ''syntax''] = Some ''syntax''"
proof -
  have "fst (descriptor_build_main (\<lambda>_. None) (\<lambda>n. if n = ''OUT_DIR'' then Present ''/out'' else NotPresent) ''/src''
      (\<lambda>f i. Ok ''syntax'') (\<lambda>d. d) (\<lambda>_. None)) =
      Some (Ok (), [''/out/miden_note_transport_file_descriptor.bin'' \<mapsto> ''syntax''])"
    by (simp add: descriptor_build_main_def var_ok_def write_file_def path_join_def MNT_DESCRIPTOR_def)
  from descriptor_survives_build [OF _ _ _ _ this, of Ok] show ?thesis
    by simp
qed

end
