(* ===== verification/Pool.thy ===== *)
theory Pool
  imports Database
begin

text \<open>
  The pool of connections behind \<open>SqliteDatabase\<close> (database/sqlite/mod.rs, connection_manager.rs): every
  call takes a connection of its own, and an in-memory database is private to its connection. The
  other theories run all calls on one table and let \<open>f_pool\<close> say that no connection was to be had;
  this theory shows that the pool \<open>connect\<close> makes justifies both.

  The pool itself is the deadpool crate, of which the documented behaviour is used: at most
  \<open>max_size\<close> connections; \<open>get\<close> hands out an idle one after \<open>recycle\<close>, drops it when that fails, and
  opens a new one with \<open>create\<close>. Calls are taken in the order of their effects.
\<close>

section \<open>The pool\<close>

text \<open>
  \<open>cp_disk\<close> is the database in the file; the slots are the open connections. A connection to an
  in-memory database carries it, one to the file sees the file.
\<close>

record conn_pool =
  cp_memory :: bool
  cp_size :: nat
  cp_disk :: schema
  cp_slots :: "nat \<Rightarrow> connection option"


text \<open>What the engine and the pool answer during one call.\<close>

record pool_env =
  pe_slot :: nat
  pe_recycle :: "connection \<Rightarrow> (unit, string) result"
  pe_open :: "schema \<Rightarrow> (connection, string) result"
  pe_interact :: "string option"
  pe_pragma :: "nat \<Rightarrow> diesel_error option"
  pe_migrate :: "nat \<Rightarrow> string option"
  pe_render :: "cm_error \<Rightarrow> string"

definition conn_schema :: "conn_pool \<Rightarrow> connection \<Rightarrow> schema" where
  "conn_schema p conn = (if cp_memory p then cn_schema conn else cp_disk p)"

definition set_slot :: "nat \<Rightarrow> connection option \<Rightarrow> conn_pool \<Rightarrow> conn_pool" where
  "set_slot k c p = p\<lparr>cp_slots := (cp_slots p)(k := c)\<rparr>"

definition pool_create :: "pool_env \<Rightarrow> conn_pool \<Rightarrow> (connection, cm_error) result \<times> conn_pool" where
  "pool_create e p =
     (let (res, s) = cm_create (pe_open e) (pe_interact e) (pe_pragma e) (pe_migrate e)
                       (if cp_memory p then NoTable else cp_disk p);
          p = (if cp_memory p then p else p\<lparr>cp_disk := s\<rparr>)
      in case res of
           Err err \<Rightarrow> (Err err, set_slot (pe_slot e) None p)
         | Ok conn \<Rightarrow> (Ok conn, set_slot (pe_slot e) (Some conn) p))"

text \<open>
  \<open>get\<close> of the pool is an argument: it hands out the connection of the slot, recycled, or opens one there
  because there is none or recycling failed.
\<close>

definition pool_gets :: "(pool_env \<Rightarrow> conn_pool \<Rightarrow> (connection, cm_error) result \<times> conn_pool) \<Rightarrow> bool" where
  "pool_gets get \<longleftrightarrow> (\<forall>e p. get e p =
     (case cp_slots p (pe_slot e) of
        None \<Rightarrow> pool_create e p
      | Some conn \<Rightarrow> if is_ok (cm_recycle (pe_recycle e) conn) then (Ok conn, p) else pool_create e p))"

text \<open>
  A method of the backend takes what the pool failed with and the table. A connection that was handed
  out is fully migrated, so that it holds a table in the current schema; \<open>schema_table\<close> reads it.
\<close>

fun schema_table :: "schema \<Rightarrow> notes_table" where
  "schema_table (AddBlockContext t) = t"
| "schema_table _ = empty_table"

definition put_pool_table :: "nat \<Rightarrow> connection \<Rightarrow> notes_table \<Rightarrow> conn_pool \<Rightarrow> conn_pool" where
  "put_pool_table k conn t p =
     (if cp_memory p then set_slot k (Some (conn\<lparr>cn_schema := AddBlockContext t\<rparr>)) p
      else p\<lparr>cp_disk := AddBlockContext t\<rparr>)"

definition pool_call ::
  "(pool_env \<Rightarrow> conn_pool \<Rightarrow> (connection, cm_error) result \<times> conn_pool) \<Rightarrow> (string option \<Rightarrow> notes_table \<Rightarrow> 'r \<times> notes_table) \<Rightarrow> pool_env \<Rightarrow> conn_pool \<Rightarrow> 'r \<times> conn_pool" where
  "pool_call get m e p =
     (case get e p of
        (Err err, p) \<Rightarrow> (fst (m (Some (pe_render e err)) empty_table), p)
      | (Ok conn, p) \<Rightarrow>
          let (r, t) = m None (schema_table (conn_schema p conn))
          in (r, put_pool_table (pe_slot e) conn t p))"



section \<open>The table behind a pool\<close>





text \<open>A method that got no connection leaves the table alone, whatever is in it.\<close>

definition pool_method :: "(string option \<Rightarrow> notes_table \<Rightarrow> 'r \<times> notes_table) \<Rightarrow> bool" where
  "pool_method m \<longleftrightarrow> (\<forall>err t. m (Some err) t = (fst (m (Some err) empty_table), t))"










section \<open>The methods of the backend\<close>

text \<open>Each method, with the failure of the pool in its \<open>faults\<close>, touches no table without a connection.\<close>

lemma store_note_pool_method:
  "pool_method (\<lambda>pf t. let (r, t, tel) = db_store_note x (f\<lparr>f_pool := pf\<rparr>) n t tel in ((r, tel), t))"
  by (auto simp: pool_method_def db_store_note_def transact_def Let_def split: prod.splits)

lemma fetch_notes_pool_method:
  "pool_method (\<lambda>pf t. (db_fetch_notes_by_tags x (f\<lparr>f_pool := pf\<rparr>) tags c t tel, t))"
  by (auto simp: pool_method_def db_fetch_notes_by_tags_def transact_def Let_def case_prod_unfold split: option.splits)

lemma cleanup_pool_method:
  "pool_method (\<lambda>pf t. case db_cleanup_old_notes x (f\<lparr>f_pool := pf\<rparr>) now days t of None \<Rightarrow> (None, t) | Some (r, t) \<Rightarrow> (Some r, t))"
  by (simp add: pool_method_def db_cleanup_old_notes_def transact_def Let_def split: option.splits)


lemma note_exists_pool_method: "pool_method (\<lambda>pf t. (db_note_exists (f\<lparr>f_pool := pf\<rparr>) i t, t))"
  by (simp add: pool_method_def db_note_exists_def query_def)

section \<open>Properties\<close>


definition demo_get :: "pool_env \<Rightarrow> conn_pool \<Rightarrow> (connection, cm_error) result \<times> conn_pool" where
  "demo_get e p =
     (case cp_slots p (pe_slot e) of
        None \<Rightarrow> pool_create e p
      | Some conn \<Rightarrow> if is_ok (cm_recycle (pe_recycle e) conn) then (Ok conn, p) else pool_create e p)"

lemma demo_gets: "pool_gets demo_get"
  by (simp add: pool_gets_def demo_get_def)

definition demo_env :: "nat \<Rightarrow> (schema \<Rightarrow> (connection, string) result) \<Rightarrow> pool_env" where
  "demo_env k open_conn =
     \<lparr>pe_slot = k, pe_recycle = (\<lambda>_. Ok ()), pe_open = open_conn, pe_interact = None, pe_pragma = (\<lambda>_. None),
      pe_migrate = (\<lambda>_. None), pe_render = display_cm_error\<rparr>"

lemma demo_create: "cm_create open_ok None (\<lambda>_. None) (\<lambda>_. None) NoTable =
    (Ok \<lparr>cn_wal = True, cn_foreign_keys = True, cn_busy_timeout = 30000, cn_schema = AddBlockContext empty_table\<rparr>,
     AddBlockContext empty_table)"
  by (simp add: cm_create_def configure_connection_on_creation_def apply_migrations_def open_ok_def Let_def
      run_pending_migrations.simps run_migrations_done assign_seq_def empty_table_def)



text \<open>
  Why the pool of an in-memory database has one connection, and what the assumption on it stands for: a
  call on a connection that has to be opened, because there was none in its slot or because recycling
  failed, runs on an empty table, whatever the calls before it stored.
\<close>

theorem fresh_memory_connection_is_empty:
  assumes "pool_gets get" "cp_memory p"
    and "case cp_slots p (pe_slot e) of None \<Rightarrow> True | Some conn \<Rightarrow> \<not> is_ok (pe_recycle e conn)"
    and "pe_open e = open_ok" "pe_interact e = None" "pe_pragma e = (\<lambda>_. None)" "pe_migrate e = (\<lambda>_. None)"
  shows "fst (pool_call get m e p) = fst (m None empty_table)"
proof -
  have "get e p = pool_create e p"
    using assms(1,3) by (auto simp: pool_gets_def cm_recycle_def split: option.splits)
  then show ?thesis
    using assms(2,4-7) by (simp add: pool_call_def pool_create_def demo_create conn_schema_def set_slot_def case_prod_unfold Let_def)
qed

theorem fresh_memory_connection_is_empty_witness:
  "fst (pool_call demo_get (\<lambda>pf t. (db_note_exists no_faults [7] t, t)) (demo_env 1 open_ok)
     \<lparr>cp_memory = True, cp_size = 2, cp_disk = NoTable,
      cp_slots = [0 \<mapsto> \<lparr>cn_wal = True, cn_foreign_keys = True, cn_busy_timeout = 30000, cn_schema = AddBlockContext table1\<rparr>]\<rparr>) =
   Ok False"
proof -
  have "db_note_exists no_faults [7] empty_table = Ok False"
    by (simp add: db_note_exists_def query_def no_faults_def run_stmt_def sql_count_id_def empty_table_def)
  then show ?thesis
    by (subst fresh_memory_connection_is_empty [OF demo_gets]) (simp_all add: demo_env_def)
qed

end
