(* ===== verification/Spec2Isabelle.thy ===== *)
theory Spec2Isabelle
  imports Mailbox StreamControl ClientProtocol NodeProgress BackendReader TestRuns Rpc Program Pool
begin

text \<open>
  A model of the Miden note transport node (crates/node, bin/node and the generated protocol code
  of crates/proto) and proofs of what it does. This theory holds the properties that span
  components; the other properties stand in the theories named \<open>...Props\<close>, \<open>StreamControl\<close>,
  \<open>ClientProtocol\<close>, \<open>NodeProgress\<close>, \<open>ServerLife\<close>, \<open>Maintenance\<close>, \<open>DbSetup\<close>, \<open>Pool\<close>, \<open>Rpc\<close>,
  \<open>Program\<close> and \<open>TestRuns\<close>, each under a claim number.

  \<^bold>\<open>The program.\<close> A node stores private notes under their tags and hands them out. Clients call
  four gRPC methods (node/grpc/mod.rs): \<open>send_note\<close> inserts a row into one SQLite table, which
  gives it an increasing \<open>seq\<close>; \<open>fetch_notes\<close> returns the rows of some tags above a cursor, 500 at
  a time; \<open>stream_notes\<close> subscribes to a tag; \<open>stats\<close> counts. A streaming task
  (node/grpc/streaming.rs) queries every subscribed tag twice a second and offers new notes to the
  subscribers' channels. A maintenance task (database/maintenance.rs) deletes notes older than the
  retention period. All of them reach the table through the SQLite backend (database/sqlite),
  one transaction per call.

  \<^bold>\<open>Theories and code.\<close>
  \<^item> \<open>Prelude\<close>: machine integers (Rust's \<open>u32\<close>, \<open>u64\<close>, \<open>i64\<close> as words, with the checked conversions
    \<open>try_from\<close>), \<open>Result\<close> as a datatype, decimal printing, lemmas on sorted lists.
  \<^item> \<open>Errors\<close>: \<open>DatabaseError\<close>, its texts and conversions, the crate error and gRPC statuses.
  \<^item> \<open>Metrics\<close>: instruments and request timers; telemetry is threaded through every measured call.
  \<^item> \<open>Proto\<close>: the messages and paths of the generated code.
  \<^item> \<open>Types\<close>, \<open>Models\<close>: \<open>StoredNote\<close>, table rows and the conversions between them.
  \<^item> \<open>NotesTable\<close>: the table, with the SQL statements the backend runs as functions on it.
  \<^item> \<open>SqliteDb\<close>: \<open>transact\<close>, \<open>query\<close> and the methods of \<open>DatabaseBackend\<close>.
  \<^item> \<open>Grpc\<close>: \<open>send_note\<close>, \<open>fetch_notes\<close>, \<open>stats\<close> and the server's configuration.
  \<^item> \<open>BTree\<close>, \<open>Streamer\<close>: the ordered map and the streaming task (manager, query round,
    forwarding, control messages, loop, subscriber stream, \<open>stream_notes\<close>).
  \<^item> \<open>Maintenance\<close>, \<open>DbSetup\<close>, \<open>Service\<close>: the maintenance task; connecting, connection set-up and
    migrations; node start-up, server stack, command line, logging, instrument table, dispatch.
  \<^item> \<open>Database\<close>: the trait \<open>DatabaseBackend\<close> as a record of its methods, \<open>Database\<close> with its
    forwarding methods, the SQLite backend as a value, and the contract of a backend (a log of notes
    under increasing numbers) as the locale \<open>note_store\<close>, interpreted on that value.
  \<^item> \<open>Pool\<close>: the connections behind the SQLite backend, each call on one of its own, and the
    refinement that lets the other theories run all calls on one table.
  \<^item> \<open>Rpc\<close>: the generated client and server of crates/proto around the handlers.
  \<^item> \<open>Program\<close>: \<open>main\<close> of bin/node and the build scripts.
  \<^item> \<open>Scenarios\<close>, \<open>TestRuns\<close>: the unit tests of database/mod.rs, maintenance.rs, sqlite/models.rs
    and grpc/mod.rs as programs, run on the contract and on the SQLite backend.
  \<^item> \<open>CursorLog\<close>, \<open>PullClient\<close>: the cursor contract as a locale and its interpretations on the
    handlers. \<open>Mailbox\<close>: the abstract store and its refinement.
  \<^item> \<open>StreamerFacts\<close>, \<open>StreamRuns\<close>, \<open>StreamDelivery\<close>: lemmas on the streaming task, and the timing
    of its \<open>select!\<close>. \<open>Examples\<close>: the concrete values statements are applied to.
  \<^item> \<open>StreamFlow\<close>, \<open>StreamHistory\<close>: the streaming task with the subscriptions around it as a step
    relation (subscribe, poll, drop, control message, query round) over explicit control and
    subscription channels. \<open>NodeSystem\<close>, \<open>NodeHistory\<close>, \<open>NodeProps\<close>, \<open>NodeProgress\<close>: the whole node as a step relation over the
    table, these flows and the maintenance task, and what its subscribers receive
    and can always still receive.
    \<open>StreamAnnounce\<close>: a subscription is announced to the streaming task once.
  \<^item> \<open>ClientProtocol\<close>: a client that both streams and fetches, in either order, against the whole node.
  \<^item> \<open>ServerLife\<close>: \<open>GrpcServer::new\<close> with the spawn of the streaming task, and the end of both.
  \<^item> \<open>BackendReader\<close>: \<open>note_store\<close> gives the cursor contract, so every backend that keeps the one
    supports the reader of the other.

  \<^bold>\<open>State.\<close> A \<open>notes_table\<close> is the rows in insertion order with the table's high-water mark of \<open>seq\<close>
  (\<open>sqlite_sequence\<close>). A call takes the table and returns it updated with its result; what may
  fail outside the code (pool, blocking thread, begin, statement, commit) is an argument of type
  \<open>faults\<close>. Interleavings of calls are runs of the relations \<open>db_step\<close> and \<open>pull_run\<close>: calls are
  taken in the order in which their transactions take effect. The streaming task is a state with
  its manager, the state of all channels, the wakers woken and the log; \<open>streamer_step\<close> is one
  iteration for a given branch of the \<open>select!\<close>, \<open>stream_loop\<close> a run over the branches taken.
  \<open>node_sys\<close> joins the table, the streaming task with its channels (\<open>stream_sys\<close>) and the maintenance
  task, with the history its properties speak of; \<open>node_step\<close> is any one event of it.

  \<^bold>\<open>Third-party code\<close> is an argument: the header codec of miden-protocol and the calendar of chrono
  (record \<open>extern\<close>; \<open>codec_ok\<close> says that a serialized header reads back, \<open>clock_ok\<close> that a time
  survives microseconds), tokio's channels (a function that says whether a send is taken), the
  monotonic clock, the engine's and the exporters' failures, tonic's codecs (record \<open>tonic\<close>;
  \<open>tonic_ok\<close> says that a call over them runs the handler within the size limits), deadpool's \<open>get\<close>
  (\<open>pool_gets\<close> says which connection it hands out), the file system of the build. Statements that rest on such a hypothesis are applied to \<open>mini_extern\<close>, \<open>wide_extern\<close>,
  \<open>direct_tonic\<close> and \<open>demo_get\<close>, instances that satisfy it.

  \<^bold>\<open>What is shown.\<close>
  \<^item> The store: a send appends one row or does nothing; \<open>seq\<close> values are never reused; the cleanup
    deletes exactly the older rows; rows convert back to the notes they came from; the whole is a
    refinement of an abstract mailbox.
  \<^item> The pull interface: the exact result of a fetch; a client that repeats it receives every note
    once and in order under any interleaving; it catches up in as many calls as 500-note batches
    cover the backlog.
  \<^item> Streaming: the manager's invariant; the control messages implement a set of subscriptions;
    the rounds read a tag without gaps; what a round offers, to whom, and whom it drops. Over every
    run of the node: a stream hands over rows of its tag in order and once, it misses a row only
    through a round that found no waker of it, and its channel holds at most two pages; and from every state
    of a run what it has not been offered can still be delivered. A client that
    opens its stream, is taken in and then fetches lacks nothing else; one that fetches first, as
    the documentation says, can have a gap for as long as its stream is open.
  \<^item> Shutdown: dropping the server stops the streaming task within 256 of its steps, and open streams
    still hand over what their channels hold.
  \<^item> The calls: over the generated client and server a call is the handler's, within the size
    limits, and a send is stored or an error with nothing stored.
  \<^item> The tests: what the repository's unit tests assert holds for all headers, times and orders of
    the concurrent writers.
  \<^item> Start-up: configured connections, migrations that keep every note, pool sizes, dispatch; the calls
    over the pool see one database.
  \<^item> Behaviour to know about, as theorems: a legacy cursor is never replaced; a subscriber
    without a stored waker misses pages; stored wakers outlive their subscriptions; control traffic
    or one failing query stops all updates; failing cleanups spin; an excessive retention period
    kills the maintenance task; successful calls are measured twice; a page can be too large for
    the generated client, and a request above 4 MB for the server, whatever its configuration; the
    process ends with success though the server could not listen; a downgrade of the schema forgets
    which \<open>seq\<close> values were given out.

  \<^bold>\<open>Bounds.\<close> Loops over data are structural recursion; \<open>run_pending_migrations\<close> terminates because
  each step leaves one migration less. The endless loops (streaming, maintenance) are functions of
  the finite list of what their iterations meet, so a statement about them holds at every point of
  a run. \<open>fetch_loop n\<close> makes \<open>n\<close> calls; \<open>n * 500\<close> at least the backlog is enough to catch up.
  Cursors up to \<open>10 ^ 12\<close> are read as \<open>seq\<close> values, as in the code; \<open>seq\<close> values stay below \<open>2 ^ 63\<close>.

  \<^bold>\<open>Not modelled.\<close> The HTTP and gRPC transport, prost's wire format, clap, the OpenTelemetry SDK and
  what the log layers print (third-party); concurrent execution inside the SQLite engine; spans and
  log lines other than those of \<open>main\<close> and the subscription events; the
  constructors of miden-protocol behind the test helpers; the crate root (module declarations and
  re-exports) and deployment files.
\<close>

section \<open>The pull interface: what a paginating client receives\<close>

text \<open>
  C1. Pagination delivers every note exactly once. A client that starts with cursor 0 and repeats
  \<open>fetch_notes\<close> for the tags \<open>tags\<close>, each time with the cursor of the last response, while other
  clients send notes and the maintenance task deletes old ones in any order and under any
  failures, has received a list of rows without repetition, in the order of their \<open>seq\<close>, all of
  them of its tags; and every row of its tags that is still stored and not above its cursor is
  among them. (The cursor is one the node reads as a \<open>seq\<close>, not above the legacy threshold.)
\<close>

theorem pull_exactly_once:
  assumes "db_ok x t0" and "codec_ok x"
    and "pull_run (db_step x cfg) x tags t0 0 t cur received"
    and "cur \<le> LEGACY_CURSOR_THRESHOLD"
  shows "\<exists>rows. received = map row_transport rows
    \<and> sorted_wrt (\<lambda>r r'. row_key r < row_key r') rows
    \<and> (\<forall>r \<in> set rows. has_tag tags r \<and> row_key r \<le> uint cur)
    \<and> (\<forall>r \<in> set (tbl_rows t). has_tag tags r \<longrightarrow> row_key r \<le> uint cur \<longrightarrow> r \<in> set rows)"
proof -
  obtain rows where r: "received = map row_transport rows" "db_ok x t"
      "cursor_run (db_step x cfg) (pull_page tags) page_end t0 (uint (0::u64)) t (uint cur) rows"
    using pull_run_cursor_run [OF assms(3,1,2)] by blast
  have l: "uint cur \<le> LEGACY"
    using assms(4) by (simp add: LEGACY_CURSOR_THRESHOLD_def word_le_def)
  have h: "uint (0::u64) \<le> sint (tbl_seq t0)"
    using table_okD(4) [OF db_ok_table [OF assms(1)]] by simp
  note run = r(3)
  have s: "sorted_wrt (<) (map row_key rows)" "\<forall>i \<in> set rows. has_tag tags i \<and> 0 < row_key i \<and> row_key i \<le> uint cur"
    using pull.run_sorted [OF run assms(1) l] by simp_all
  have "r \<in> set rows" if "r \<in> set (tbl_rows t)" "has_tag tags r" "row_key r \<le> uint cur" for r
    using pull.run_complete [OF run assms(1) h l that(1,2)] that(3)
      table_okD(2) [OF db_ok_table [OF r(2)] that(1)] by simp
  with r(1) s show ?thesis
    by (intro exI [of _ rows]) (auto simp: sorted_wrt_map)
qed

theorem pull_exactly_once_witness:
  "\<exists>rows. [note1] = map row_transport rows
    \<and> sorted_wrt (\<lambda>r r'. row_key r < row_key r') rows
    \<and> (\<forall>r \<in> set rows. has_tag [3, 5] r \<and> row_key r \<le> uint (1 :: u64))
    \<and> (\<forall>r \<in> set (tbl_rows table1). has_tag [3, 5] r \<longrightarrow> row_key r \<le> uint (1 :: u64) \<longrightarrow> r \<in> set rows)"
  by (rule pull_exactly_once [OF db_ok_empty mini_codec_ok pull_run_example])
    (simp add: LEGACY_CURSOR_THRESHOLD_def)

text \<open>
  C3. While nothing is deleted, the notes a client holds are exactly the stored rows of its tags
  up to its cursor, in order: the received list is a function of the table and the cursor, however
  the fetches and the sends interleaved.
\<close>

theorem pull_is_log_prefix:
  assumes "db_ok x t0" and "codec_ok x"
    and "pull_run (send_step x cfg) x tags t0 0 t cur received"
    and "cur \<le> LEGACY_CURSOR_THRESHOLD"
  shows "received = map row_transport (filter (\<lambda>r. has_tag tags r \<and> row_key r \<le> uint cur) (tbl_rows t))"
proof -
  obtain rows where r: "received = map row_transport rows" "db_ok x t"
      "cursor_run (send_step x cfg) (pull_page tags) page_end t0 (uint (0::u64)) t (uint cur) rows"
    using pull_run_cursor_run [OF assms(3,1,2), of cfg] send_step_db_step by blast
  have l: "uint cur \<le> LEGACY"
    using assms(4) by (simp add: LEGACY_CURSOR_THRESHOLD_def word_le_def)
  have h: "uint (0::u64) \<le> sint (tbl_seq t0)"
    using table_okD(4) [OF db_ok_table [OF assms(1)]] by simp
  have "rows = filter (\<lambda>i. has_tag tags i \<and> uint (0::u64) < row_key i \<and> row_key i \<le> uint cur) (tbl_rows t)"
    by (rule pull_sends.run_exact [OF r(3) assms(1) h l])
  also have "\<dots> = filter (\<lambda>r. has_tag tags r \<and> row_key r \<le> uint cur) (tbl_rows t)"
    using table_okD(2) [OF db_ok_table [OF r(2)]] by (intro filter_cong) auto
  finally show ?thesis
    using r(1) by simp
qed

theorem pull_is_log_prefix_witness:
  "[note1] = map row_transport (filter (\<lambda>r. has_tag [3, 5] r \<and> row_key r \<le> uint (1 :: u64)) (tbl_rows table1))"
  by (rule pull_is_log_prefix [OF db_ok_empty mini_codec_ok pull_run_sends_example])
    (simp add: LEGACY_CURSOR_THRESHOLD_def)

text \<open>
  C14. A backlogged client catches up in \<open>n\<close> calls, 500 notes at a time: \<open>n\<close> fetches of an unchanging
  table all succeed and return the first \<open>500 * n\<close> notes of its tags above its cursor, so they
  return all of them as soon as \<open>n\<close> batches cover the backlog.
\<close>

theorem fetch_loop_catches_up:
  assumes "db_ok x t" "codec_ok x" "clock_ok x" and "length tags \<le> 128"
    and "uint cur \<le> sint (tbl_seq t)" and "sint (tbl_seq t) \<le> LEGACY"
  shows "\<exists>cur'. fetch_loop x tags t tel n cur =
    Ok (cur', map row_transport
      (take (n * 500) (filter (\<lambda>r. has_tag tags r \<and> uint cur < row_key r) (tbl_rows t))))"
  using fetch_loop_drain [OF assms(1-4), of tel n cur]
    pull.drain_eq [OF assms(1,6,5), of tags n] by auto

theorem fetch_loop_catches_up_witness:
  "\<exists>cur'. fetch_loop mini_extern [3, 5] table2 tel0 1 0 =
    Ok (cur', map row_transport
      (take (1 * 500) (filter (\<lambda>r. has_tag [3, 5] r \<and> uint (0 :: u64) < row_key r) (tbl_rows table2))))"
  by (rule fetch_loop_catches_up [OF table2_ok mini_codec_ok mini_clock_ok])
    (simp_all add: table2_def)

text \<open>
  C19. The legacy reset does not let a client recover. For a cursor above the threshold the query
  starts from 0, but the response cursor is still the request's: however often the client repeats
  the call, it keeps its cursor and receives the same first page, and no note beyond the first
  500 of its tags.
\<close>

theorem legacy_cursor_is_never_replaced:
  assumes "db_ok x t" "codec_ok x" "clock_ok x" and "length tags \<le> 128"
    and "LEGACY_CURSOR_THRESHOLD < cur" and "sint (tbl_seq t) \<le> LEGACY"
  shows "fetch_loop x tags t tel n cur =
    Ok (cur, concat (replicate n
      (map row_transport (take 500 (filter (has_tag tags) (tbl_rows t))))))"
proof -
  let ?p = "take 500 (filter (has_tag tags) (tbl_rows t))"
  have l: "LEGACY < uint cur"
    using assms(5) by (simp add: legacy_threshold_uint)
  have p: "pull_page tags t (uint cur) = ?p"
    using l table_okD(2) [OF db_ok_table [OF assms(1)]]
    by (auto simp: pull_page_def query_page_def intro!: arg_cong [of _ _ "take 500"] filter_cong)
  have "row_key r \<le> uint cur" if "r \<in> set ?p" for r
    using table_okD(3) [OF db_ok_table [OF assms(1)], of r] that l assms(6)
    by (auto dest!: in_set_takeD)
  then have e: "page_end (uint cur) ?p = uint cur"
    using page_end_ge [of "uint cur" ?p] page_end_le [of "uint cur" "uint cur" ?p] by auto
  have "fst (drain (pull_page tags) page_end t n (uint cur)) = uint cur \<and>
      snd (drain (pull_page tags) page_end t n (uint cur)) = concat (replicate n ?p)"
    using p e by (induction n) (auto simp: Let_def case_prod_beta)
  then show ?thesis
    using fetch_loop_drain [OF assms(1-4), of tel n cur]
    by (auto simp: map_concat map_replicate word_uint_eq_iff)
qed

theorem legacy_cursor_is_never_replaced_witness:
  "fetch_loop mini_extern [3, 5] table2 tel0 2 1760000000000000 =
    Ok (1760000000000000, concat (replicate 2
      (map row_transport (take 500 (filter (has_tag [3, 5]) (tbl_rows table2))))))"
  by (rule legacy_cursor_is_never_replaced [OF table2_ok mini_codec_ok mini_clock_ok])
    (simp_all add: table2_def LEGACY_CURSOR_THRESHOLD_def)

section \<open>Refinement of the mailbox\<close>

text \<open>
  C4. The node implements a mailbox. Read as mails under unbounded numbers, a table goes through
  the abstract operations: an accepted send is the mailbox's send (an error exactly when the
  mailbox refuses a known identifier), a fetch returns the mails the mailbox's fetch selects, with
  the largest number as the cursor, and a cleanup is the mailbox's expiry.
\<close>

theorem node_refines_mailbox:
  assumes "db_ok x t" "codec_ok x" "clock_ok x" and "sint (tbl_seq t) < 2 ^ 63 - 1"
  shows "(\<forall>n r t' tel'. accepted_note x cfg now req = Some n \<longrightarrow>
      send_note x cfg no_faults now req t tel = (r, t', tel') \<longrightarrow>
      (case mb_send (hdr_id x (sn_header n)) (hdr_tag x (sn_header n)) (sint (ts_micros x now))
           (transport_of_stored x n) (mailbox_of t) of
         None \<Rightarrow> \<not> is_ok r \<and> mailbox_of t' = mailbox_of t
       | Some mb \<Rightarrow> is_ok r \<and> mailbox_of t' = mb))
    \<and> (length tags \<le> 128 \<longrightarrow> c \<le> LEGACY_CURSOR_THRESHOLD \<longrightarrow>
      (\<exists>c'. fst (fetch_notes x no_faults \<lparr>fnr_tags = tags, fnr_cursor = c\<rparr> t tel) =
          Ok \<lparr>fnp_notes = map ml_note (mb_fetch (set tags) (uint c) (mailbox_of t)), fnp_cursor = c'\<rparr>
        \<and> uint c' = foldr max (map ml_number (mb_fetch (set tags) (uint c) (mailbox_of t))) (uint c)))
    \<and> (\<forall>cutoff r t'. ts_minus_days x now (i64_of_u32 days) = Some cutoff \<longrightarrow>
      db_cleanup_old_notes x no_faults now days t = Some (r, t') \<longrightarrow>
      is_ok r \<and> mailbox_of t' = mb_expire (sint (ts_micros x cutoff)) (mailbox_of t))"
  using send_note_refines [OF assms(1,4)] fetch_notes_refines [OF assms(1-3)] cleanup_refines [OF assms(1)]
  by blast

theorem node_refines_mailbox_witness:
  "mb_send [7] 3 50 note1 (mailbox_of empty_table) = Some (mailbox_of table1)"
proof -
  obtain tel' where s: "send_note mini_extern grpc_config_default no_faults 50 req1 empty_table tel0 =
      (Ok SendNoteResponse, table1, tel')"
    using send_req1 by blast
  have a: "accepted_note mini_extern grpc_config_default 50 req1 = Some \<lparr>sn_header = (7, 3), sn_details = [1, 2],
      sn_created_at = 50, sn_seq = 0, sn_after_block_num = Some 12\<rparr>"
    by (simp add: accepted_note_def req1_def payload_size_def grpc_config_default_def)
  have q: "sint (tbl_seq empty_table) < 2 ^ 63 - 1"
    by (simp add: empty_table_def)
  from conjunct1 [OF node_refines_mailbox [OF db_ok_empty mini_codec_ok mini_clock_ok q, of grpc_config_default 50 req1]]
    a s show ?thesis
    by (fastforce simp: transport_of_stored_def note1_def mb_send_def mailbox_of_def empty_table_def)
qed

end
